theory Spec2Isabelle
  imports
    Complex_Main
    "HOL-Library.Sublist"
    "HOL-Library.Multiset"
    "HOL-Library.Char_ord"
    "HOL-Library.List_Lexorder"
    "HOL-Library.Product_Lexorder"
begin

section \<open>Repair of broken relative links (src/tools/repair.py)\<close>

text \<open>
  The module finds the relative links of a Markdown document whose target is missing
  (\<open>find_broken_urls\<close>), sorts them into four lists by what the corpus offers for the
  target's file name (\<open>classify_broken_urls\<close>), and rewrites the lines of the links that
  have a single exact match (\<open>write_corrected_url\<close>). The embedding follows the source
  function by function. Python's exceptions are values of \<open>error\<close>; the objects the
  source mutates (the lines of a document, the files on disk) are passed in and returned.
\<close>

subsection \<open>Python values used by the module\<close>

datatype error = IndexError | ValueError | OSError | RuntimeError | NameError

text \<open>The value a call returns: \<open>None\<close> where the function has no return statement.\<close>

datatype py_value = PyNone | PyInt int

text \<open>
  \<open>xs[i]\<close> on a Python list: an index from \<open>-len\<close> to \<open>-1\<close> counts from the end, anything
  out of range raises IndexError. The result is the position that is read or written.
\<close>

definition py_index :: "'a list \<Rightarrow> int \<Rightarrow> error + nat" where
  "py_index xs i =
     (if 0 \<le> i \<and> i < int (length xs) then Inr (nat i)
      else if i < 0 \<and> - int (length xs) \<le> i then Inr (nat (int (length xs) + i))
      else Inl IndexError)"

text \<open>
  \<open>s.replace(old, new)\<close> with no count: every occurrence of \<open>old\<close> is replaced, scanning
  from the left, and the scan goes on behind each replaced occurrence. An empty \<open>old\<close>
  matches before every character and at the end.
\<close>

function replace_from :: "string \<Rightarrow> string \<Rightarrow> string \<Rightarrow> string" where
  "replace_from old new [] = []"
| "replace_from old new (c # cs) =
     (if old \<noteq> [] \<and> prefix old (c # cs)
      then new @ replace_from old new (drop (length old) (c # cs))
      else c # replace_from old new cs)"
  by pat_completeness auto
termination
  by (relation "measure (\<lambda>(old, new, s). length s)") auto

definition str_replace :: "string \<Rightarrow> string \<Rightarrow> string \<Rightarrow> string" where
  "str_replace old new s =
     (if old = [] then new @ concat (map (\<lambda>c. c # new) s) else replace_from old new s)"

text \<open>\<open>s.split(sep)\<close> for a separator of one character.\<close>

fun str_split :: "char \<Rightarrow> string \<Rightarrow> string list" where
  "str_split sep [] = [[]]"
| "str_split sep (c # cs) =
     (if c = sep then [] # str_split sep cs
      else (case str_split sep cs of
              [] \<Rightarrow> [[c]]
            | w # ws \<Rightarrow> (c # w) # ws))"

text \<open>\<open>sep.join(parts)\<close>.\<close>

fun str_join :: "string \<Rightarrow> string list \<Rightarrow> string" where
  "str_join sep [] = []"
| "str_join sep [p] = p"
| "str_join sep (p # q # ps) = p @ sep @ str_join sep (q # ps)"

subsection \<open>Paths (pathlib, POSIX flavour)\<close>

text \<open>
  A \<open>Path\<close> is its anchor (the root: \<open>''''\<close> for a relative path, \<open>''/''\<close>, or \<open>''//''\<close> for exactly two
  leading slashes) and its components. Parsing a string drops empty components and
  \<open>''.''\<close> and keeps \<open>''..''\<close>.
\<close>

record path =
  anchor :: string
  tail :: "string list"

definition splitroot :: "string \<Rightarrow> string \<times> string" where
  "splitroot p =
     (if take 1 p \<noteq> ''/'' then ('''', p)
      else if take 1 (drop 1 p) \<noteq> ''/'' \<or> take 1 (drop 2 p) = ''/'' then (''/'', drop 1 p)
      else (take 2 p, drop 2 p))"

definition Path :: "string \<Rightarrow> path" where
  "Path s =
     (case splitroot s of
        (r, rel) \<Rightarrow> \<lparr>anchor = r, tail = filter (\<lambda>x. x \<noteq> [] \<and> x \<noteq> ''.'') (str_split CHR ''/'' rel)\<rparr>)"

definition name :: "path \<Rightarrow> string" where
  "name p = (if tail p = [] then [] else last (tail p))"

definition parent :: "path \<Rightarrow> path" where
  "parent p = (if tail p = [] then p else p\<lparr>tail := butlast (tail p)\<rparr>)"

definition joinpath :: "path \<Rightarrow> string \<Rightarrow> path" where
  "joinpath p s =
     (let q = Path s in if anchor q \<noteq> [] then q else p\<lparr>tail := tail p @ tail q\<rparr>)"

definition str :: "path \<Rightarrow> string" where
  "str p =
     (let s = anchor p @ str_join ''/'' (tail p) in if s = [] then ''.'' else s)"

text \<open>\<open>p.relative_to(other)\<close> raises ValueError unless \<open>other\<close> is \<open>p\<close> or one of its parents.\<close>

definition relative_to :: "path \<Rightarrow> path \<Rightarrow> error + path" where
  "relative_to p other =
     (if anchor p = anchor other \<and> prefix (tail other) (tail p)
      then Inr \<lparr>anchor = [], tail = drop (length (tail other)) (tail p)\<rparr>
      else Inl ValueError)"

subsection \<open>The file system\<close>

text \<open>
  What the module asks of the file system. \<open>canonical\<close> is the absolute path, free of
  symbolic links and dots, of the file a path names; files and directories are kept under
  it. \<open>loops\<close> holds for a path that runs into a loop of symbolic links, \<open>unreadable\<close> for
  a path whose \<open>stat\<close> fails with an error other than "no such file" (a component longer
  than the system allows, a directory that may not be searched), \<open>denied\<close> for a file that
  cannot be opened for writing, and \<open>room\<close> is the number of characters a file can take
  before writing to it fails (\<open>None\<close>: no limit).
\<close>

record filesystem =
  canonical :: "path \<Rightarrow> path"
  loops :: "path \<Rightarrow> bool"
  unreadable :: "path \<Rightarrow> bool"
  dirs :: "path \<Rightarrow> bool"
  files :: "path \<rightharpoonup> string"
  denied :: "path \<Rightarrow> bool"
  room :: "path \<Rightarrow> nat option"

text \<open>\<open>p.resolve()\<close>: RuntimeError on a loop of symbolic links.\<close>

definition resolve :: "filesystem \<Rightarrow> path \<Rightarrow> error + path" where
  "resolve fs p = (if loops fs p then Inl RuntimeError else Inr (canonical fs p))"

text \<open>
  \<open>p.exists()\<close> for a resolved path: \<open>False\<close> when there is no such file, and the OSError of
  \<open>stat\<close> when it is any other error.
\<close>

definition exists :: "filesystem \<Rightarrow> path \<Rightarrow> error + bool" where
  "exists fs p =
     (if unreadable fs p then Inl OSError else Inr (files fs p \<noteq> None \<or> dirs fs p))"

text \<open>
  \<open>with p.open("w") as fo: for line in lines: fo.write(line)\<close>. Opening raises OSError when
  the file cannot be written, and the file is as it was. Once opened the file is empty,
  and the lines are written one after the other: when the file has no room for all of
  them, a write (or the close) raises OSError and the file holds what reached it, the
  first characters of the text. A line is a string of bytes here, so encoding it
  cannot fail. The result is the exception, if one was raised, and the file system.
\<close>

definition write_lines :: "filesystem \<Rightarrow> path \<Rightarrow> string list \<Rightarrow> error option \<times> filesystem" where
  "write_lines fs p lines =
     (if denied fs (canonical fs p) then (Some OSError, fs)
      else (case room fs (canonical fs p) of
              None \<Rightarrow> (None, fs\<lparr>files := (files fs)(canonical fs p \<mapsto> concat lines)\<rparr>)
            | Some k \<Rightarrow>
                if length (concat lines) \<le> k
                then (None, fs\<lparr>files := (files fs)(canonical fs p \<mapsto> concat lines)\<rparr>)
                else (Some OSError,
                      fs\<lparr>files := (files fs)(canonical fs p \<mapsto> take k (concat lines))\<rparr>)))"

subsection \<open>Documents and links\<close>

text \<open>
  The dictionary of one Markdown link, as the docstrings list its keys (\<open>text\<close> and
  \<open>section\<close> are written \<open>url_text\<close> and \<open>url_section\<close>). \<open>md\<close> is the file part of the
  URL, \<open>section\<close> the part behind \<open>#\<close>.
\<close>

record url =
  full :: string
  url_text :: string
  link :: string
  md_span :: "int \<times> int"
  md :: string
  section_span :: "int \<times> int"
  url_section :: "string option"

text \<open>
  A MarkdownDocument: the class is defined in another module, and the functions here use
  its \<open>filename\<close>, its list of lines \<open>contents\<close>, and what \<open>relative_links()\<close> yields: pairs
  of a line number and a link.
\<close>

record document =
  filename :: path
  contents :: "string list"
  relative_links :: "(int \<times> url) list"

type_synonym problem = "int \<times> url"

text \<open>
  The lookup dictionary, file name to the documents of that name, as the list of its
  items in the dictionary's order.
\<close>

type_synonym lookup = "(string \<times> document list) list"

definition keys :: "lookup \<Rightarrow> string list" where
  "keys lookup = map fst lookup"

definition contains :: "lookup \<Rightarrow> string \<Rightarrow> bool" where
  "contains lookup key = (map_of lookup key \<noteq> None)"

definition getitem :: "lookup \<Rightarrow> string \<Rightarrow> document list" where
  "getitem lookup key = the (map_of lookup key)"

subsection \<open>find_broken_urls\<close>

text \<open>
  Lines 103 and 105 for one link: the target joined to the directory of the document and
  resolved, then tested. Either call can raise.
\<close>

definition target_exists :: "filesystem \<Rightarrow> document \<Rightarrow> problem \<Rightarrow> error + bool" where
  "target_exists fs doc rurl =
     (case resolve fs (joinpath (parent (filename doc)) (md (snd rurl))) of
        Inl e \<Rightarrow> Inl e
      | Inr file \<Rightarrow> exists fs file)"

fun find_broken_loop ::
  "filesystem \<Rightarrow> document \<Rightarrow> problem list \<Rightarrow> problem list \<Rightarrow> error + problem list" where
  "find_broken_loop fs doc problems [] = Inr problems"
| "find_broken_loop fs doc problems (rurl # rest) =
     (case target_exists fs doc rurl of
        Inl e \<Rightarrow> Inl e
      | Inr found \<Rightarrow>
          if \<not> found
          then find_broken_loop fs doc (problems @ [rurl]) rest
          else find_broken_loop fs doc problems rest)"

text \<open>
  The function returns the list or raises; it assigns to nothing, so the document and
  the file system are handed back as they came.
\<close>

definition find_broken_urls ::
  "filesystem \<Rightarrow> document \<Rightarrow> (error + problem list) \<times> document \<times> filesystem" where
  "find_broken_urls fs doc = (find_broken_loop fs doc [] (relative_links doc), doc, fs)"

subsection \<open>difflib.get_close_matches\<close>

text \<open>
  The three similarity scores of a \<open>SequenceMatcher\<close> whose first sequence is a candidate
  and whose second sequence is the word. They are numbers between 0 and 1; how difflib
  computes them is not part of this module, so they are parameters. A score is a Python
  float, which is a real number, and the float \<open>0.8\<close> is the least float that is not
  below 8/10: a float score is at least the float \<open>0.8\<close> exactly when it is at least 8/10.
\<close>

record matcher =
  real_quick_ratio :: "string \<Rightarrow> string \<Rightarrow> real"
  quick_ratio :: "string \<Rightarrow> string \<Rightarrow> real"
  ratio :: "string \<Rightarrow> string \<Rightarrow> real"

text \<open>
  \<open>heapq.nlargest(n, xs)\<close>: the \<open>n\<close> largest elements, largest first. The elements here are
  pairs of a score and a string, which Python compares by the score and then by the string.
\<close>

definition nlargest :: "nat \<Rightarrow> ('a::linorder) list \<Rightarrow> 'a list" where
  "nlargest n xs = take n (rev (sort xs))"

text \<open>
  \<open>get_close_matches(word, possibilities, n, cutoff)\<close>. The library first checks \<open>n > 0\<close>
  and \<open>0 \<le> cutoff \<le> 1\<close>; the only call of this module passes the default \<open>n = 3\<close> and
  \<open>cutoff = 0.8\<close>, for which both checks pass.
\<close>

fun close_loop ::
  "matcher \<Rightarrow> string \<Rightarrow> real \<Rightarrow> (real \<times> string) list \<Rightarrow> string list \<Rightarrow> (real \<times> string) list" where
  "close_loop s word cutoff result [] = result"
| "close_loop s word cutoff result (x # rest) =
     (if real_quick_ratio s x word \<ge> cutoff \<and> quick_ratio s x word \<ge> cutoff
         \<and> ratio s x word \<ge> cutoff
      then close_loop s word cutoff (result @ [(ratio s x word, x)]) rest
      else close_loop s word cutoff result rest)"

definition get_close_matches :: "matcher \<Rightarrow> string \<Rightarrow> string list \<Rightarrow> nat \<Rightarrow> real \<Rightarrow> string list" where
  "get_close_matches s word possibilities n cutoff =
     map snd (nlargest n (close_loop s word cutoff [] possibilities))"

subsection \<open>classify_broken_urls\<close>

record results =
  no_matches :: "(problem \<times> document list) list"
  suggestions :: "(problem \<times> document list) list"
  exact_match :: "(problem \<times> document list) list"
  exact_matches :: "(problem \<times> document list) list"

definition classify_step :: "matcher \<Rightarrow> lookup \<Rightarrow> results \<Rightarrow> problem \<Rightarrow> results" where
  "classify_step s lookup res problem =
     (let key = name (Path (md (snd problem)))
      in if contains lookup key
         then (let matches = getitem lookup key
               in if length matches = 1
                  then res\<lparr>exact_match := exact_match res @ [(problem, matches)]\<rparr>
                  else res\<lparr>exact_matches := exact_matches res @ [(problem, matches)]\<rparr>)
         else (let suggested = get_close_matches s key (keys lookup) 3 0.8
               in if suggested \<noteq> []
                  then res\<lparr>suggestions := suggestions res
                         @ [(problem, concat (map (getitem lookup) suggested))]\<rparr>
                  else res\<lparr>no_matches := no_matches res @ [(problem, [])]\<rparr>))"

fun classify_loop :: "matcher \<Rightarrow> lookup \<Rightarrow> results \<Rightarrow> problem list \<Rightarrow> results" where
  "classify_loop s lookup res [] = res"
| "classify_loop s lookup res (problem # rest) =
     classify_loop s lookup (classify_step s lookup res problem) rest"

definition classify_broken_urls :: "matcher \<Rightarrow> lookup \<Rightarrow> problem list \<Rightarrow> results" where
  "classify_broken_urls s lookup broken_urls =
     classify_loop s lookup
       \<lparr>no_matches = [], suggestions = [], exact_match = [], exact_matches = []\<rparr> broken_urls"

subsection \<open>write_corrected_url\<close>

text \<open>
  \<open>relative_path\<close> is imported from \<open>md_docs.common\<close> and is a parameter here: it takes the
  directory to start from and the directory to reach, and returns a path.

  The body of the loop, for one entry: the new URL, the new line, the two log lines (the
  first formats \<open>md.filename.relative_to(root)\<close>, which raises when the document is not
  under the root), then the assignment to the line. The result is the exception, if one
  was raised, and the document as the step leaves it.
\<close>

definition correct_url ::
  "(path \<Rightarrow> path \<Rightarrow> path) \<Rightarrow> path \<Rightarrow> document \<Rightarrow> problem \<times> document list
     \<Rightarrow> error option \<times> document" where
  "correct_url relative_path rt doc entry =
     (case entry of ((line, u), matches) \<Rightarrow>
        (case matches of
           [] \<Rightarrow> (Some IndexError, doc)
         | m # _ \<Rightarrow>
             (let new_url = joinpath (relative_path (parent (filename doc)) (parent (filename m)))
                              (name (filename m))
              in case py_index (contents doc) line of
                   Inl e \<Rightarrow> (Some e, doc)
                 | Inr i \<Rightarrow>
                     (let new_line = str_replace (md u) (str new_url) (contents doc ! i)
                      in case relative_to (filename doc) rt of
                           Inl e \<Rightarrow> (Some e, doc)
                         | Inr _ \<Rightarrow> (None, doc\<lparr>contents := (contents doc)[i := new_line]\<rparr>)))))"

fun correct_loop ::
  "(path \<Rightarrow> path \<Rightarrow> path) \<Rightarrow> path \<Rightarrow> document \<Rightarrow> (problem \<times> document list) list
     \<Rightarrow> error option \<times> document" where
  "correct_loop relative_path rt doc [] = (None, doc)"
| "correct_loop relative_path rt doc (entry # rest) =
     (case correct_url relative_path rt doc entry of
        (Some e, doc') \<Rightarrow> (Some e, doc')
      | (None, doc') \<Rightarrow> correct_loop relative_path rt doc' rest)"

text \<open>
  The whole function: what it returns or raises, the document and the file system as it
  leaves them. There is no return statement, so a call that ends normally returns \<open>None\<close>.
\<close>

definition write_corrected_url ::
  "(path \<Rightarrow> path \<Rightarrow> path) \<Rightarrow> document \<Rightarrow> (problem \<times> document list) list \<Rightarrow> path \<Rightarrow> bool
     \<Rightarrow> filesystem \<Rightarrow> (error + py_value) \<times> document \<times> filesystem" where
  "write_corrected_url relative_path doc problems rt dry_run fs =
     (case correct_loop relative_path rt doc problems of
        (Some e, doc') \<Rightarrow> (Inl e, doc', fs)
      | (None, doc') \<Rightarrow>
          if dry_run then (Inr PyNone, doc', fs)
          else (case write_lines fs (filename doc') (contents doc') of
                  (Some e, fs') \<Rightarrow> (Inl e, doc', fs')
                | (None, fs') \<Rightarrow> (Inr PyNone, doc', fs')))"

subsection \<open>links\<close>








subsection \<open>Replacing the first occurrence only\<close>

text \<open>
  What the specification describes for a line that holds the target more than once:
  \<open>s.replace(old, new, 1)\<close>, which replaces the first occurrence and nothing else. It is
  not what the source calls; it is here to be compared with \<open>str_replace\<close>.
\<close>

fun replace_first_occurrence :: "string \<Rightarrow> string \<Rightarrow> string \<Rightarrow> string" where
  "replace_first_occurrence old new [] = (if old = [] then new else [])"
| "replace_first_occurrence old new (c # cs) =
     (if prefix old (c # cs) then new @ drop (length old) (c # cs)
      else c # replace_first_occurrence old new cs)"

subsection \<open>A small corpus for the examples\<close>

definition doc_c :: document where
  "doc_c = \<lparr>filename = Path ''/docs/c/report.md'', contents = [''# Report''],
     relative_links = []\<rparr>"

definition doc_d :: document where
  "doc_d = \<lparr>filename = Path ''/docs/d/index.md'', contents = [''# Index''],
     relative_links = []\<rparr>"

definition doc_e :: document where
  "doc_e = \<lparr>filename = Path ''/docs/e/index.md'', contents = [''# Index, again''],
     relative_links = []\<rparr>"

definition corpus :: lookup where
  "corpus = [(''report.md'', [doc_c]), (''index.md'', [doc_d, doc_e])]"

text \<open>
  A Markdown link \<open>[txt](target#sec)\<close> that starts at column \<open>col\<close> of its line, as the
  dictionary \<open>relative_links()\<close> yields for it.
\<close>

definition markdown_link :: "int \<Rightarrow> string \<Rightarrow> string \<Rightarrow> string option \<Rightarrow> url" where
  "markdown_link col txt target sec =
     \<lparr>full = ''['' @ txt @ '']('' @ target @ (case sec of None \<Rightarrow> [] | Some i \<Rightarrow> ''#'' @ i) @ '')'',
      url_text = txt,
      link = target @ (case sec of None \<Rightarrow> [] | Some i \<Rightarrow> ''#'' @ i),
      md_span = (col + int (length txt) + 3, col + int (length txt) + 3 + int (length target)),
      md = target,
      section_span = (case sec of None \<Rightarrow> (-1, -1)
         | Some i \<Rightarrow> (col + int (length txt) + 4 + int (length target),
                     col + int (length txt) + 4 + int (length target) + int (length i))),
      url_section = sec\<rparr>"

definition link_to :: "string \<Rightarrow> url" where
  "link_to target = markdown_link 0 ''see'' target None"

text \<open>
  Scores for the examples, as difflib gives them for the four pairs of a key of the
  corpus and a misspelt name: \<open>real_quick_ratio\<close> is twice the shorter length over the sum
  of the lengths; \<open>quick_ratio\<close> and \<open>ratio\<close> are tabulated (\<open>report.md\<close> and \<open>reprot.md\<close>
  share 8 of their 18 characters in matching blocks).
\<close>

definition scores :: matcher where
  "scores =
     \<lparr>real_quick_ratio = (\<lambda>x word.
        if length x + length word = 0 then 1
        else 2 * real (min (length x) (length word)) / real (length x + length word)),
      quick_ratio = (\<lambda>x word.
        if x = ''report.md'' \<and> word = ''reprot.md'' then 1
        else if x = ''report.md'' \<and> word = ''zzz.md'' then 2 / 5
        else if x = ''index.md'' \<and> word = ''reprot.md'' then 8 / 17
        else if x = ''index.md'' \<and> word = ''zzz.md'' then 3 / 7
        else 0),
      ratio = (\<lambda>x word.
        if x = ''report.md'' \<and> word = ''reprot.md'' then 8 / 9
        else if x = ''report.md'' \<and> word = ''zzz.md'' then 2 / 5
        else if x = ''index.md'' \<and> word = ''reprot.md'' then 8 / 17
        else if x = ''index.md'' \<and> word = ''zzz.md'' then 3 / 7
        else 0)\<rparr>"

definition link1 :: url where
  "link1 = markdown_link 4 ''report.md'' ''report.md'' (Some ''intro'')"

definition link2 :: url where
  "link2 = markdown_link 16 ''the report'' ''report.md'' None"

definition link3 :: url where
  "link3 = markdown_link 0 ''see'' ''../b/report.md'' (Some ''s'')"

definition link4 :: url where
  "link4 = markdown_link 0 ''home'' ''../d/index.md'' None"

definition link_r :: url where
  "link_r = markdown_link 0 ''r'' ''report.md'' None"

text \<open>
  A document with three broken links (lines 1 to 3) and a link that resolves (line 4),
  a document whose file cannot be written, and a document with a link to a file name of
  300 characters.
\<close>

definition doc_x :: document where
  "doc_x = \<lparr>filename = Path ''/docs/a/x.md'',
     contents = [''# X\<newline>'',
                 ''See [report.md](report.md#intro).\<newline>'',
                 ''Open report.md: [the report](report.md)\<newline>'',
                 ''[see](../b/report.md#s) for more\<newline>'',
                 ''[home](../d/index.md)\<newline>''],
     relative_links = [(1, link1), (2, link2), (3, link3), (4, link4)]\<rparr>"

definition doc_r :: document where
  "doc_r = \<lparr>filename = Path ''/docs/r/locked.md'',
     contents = [''[r](report.md)\<newline>''],
     relative_links = [(0, link_r)]\<rparr>"

definition long_target :: string where
  "long_target = replicate 300 (CHR ''a'')"

definition doc_l :: document where
  "doc_l = \<lparr>filename = Path ''/docs/a/long.md'',
     contents = [''[big]('' @ long_target @ '')\<newline>''],
     relative_links = [(0, markdown_link 0 ''big'' long_target None)]\<rparr>"

text \<open>
  A file system without symbolic links, where every path is absolute: the canonical path
  is the path with each \<open>..\<close> removed together with the component before it. A component
  of more than 255 characters makes \<open>stat\<close> fail (the name is too long), the file of
  \<open>doc_r\<close> cannot be opened for writing, and there is room for every text.
\<close>

fun collapse :: "string list \<Rightarrow> string list \<Rightarrow> string list" where
  "collapse seen [] = rev seen"
| "collapse seen (c # cs) =
     (if c = ''..'' then collapse (tl seen) cs else collapse (c # seen) cs)"

definition disk :: filesystem where
  "disk = \<lparr>canonical = (\<lambda>p. p\<lparr>tail := collapse [] (tail p)\<rparr>),
     loops = (\<lambda>p. False),
     unreadable = (\<lambda>p. list_ex (\<lambda>c. 255 < length c) (tail p)),
     dirs = (\<lambda>p. p \<in> set (map Path [''/'', ''/docs'', ''/docs/a'', ''/docs/c'', ''/docs/d'',
                                    ''/docs/e'', ''/docs/r''])),
     files = map_of [(filename doc_x, concat (contents doc_x)),
                     (filename doc_c, concat (contents doc_c)),
                     (filename doc_d, concat (contents doc_d)),
                     (filename doc_e, concat (contents doc_e)),
                     (filename doc_r, concat (contents doc_r)),
                     (filename doc_l, concat (contents doc_l))],
     denied = (\<lambda>p. p = filename doc_r),
     room = (\<lambda>p. None)\<rparr>"



text \<open>
  A \<open>relative_path\<close> for the examples, whose directories all lie side by side under
  \<open>/docs\<close>: one level up, then into the directory to reach.
\<close>

definition sibling_path :: "path \<Rightarrow> path \<Rightarrow> path" where
  "sibling_path left right = \<lparr>anchor = [], tail = [''..'', name right]\<rparr>"

section \<open>Properties\<close>

subsection \<open>Evaluating the examples\<close>

lemma md_link_to: "md (link_to t) = t"
  by (simp add: link_to_def markdown_link_def)

lemma name_report: "name (Path ''../b/report.md'') = ''report.md''"
  by (simp add: Path_def splitroot_def name_def)

lemma name_index: "name (Path ''index.md'') = ''index.md''"
  by (simp add: Path_def splitroot_def name_def)

lemma name_reprot: "name (Path ''reprot.md'') = ''reprot.md''"
  by (simp add: Path_def splitroot_def name_def)

lemma name_zzz: "name (Path ''../zzz.md'') = ''zzz.md''"
  by (simp add: Path_def splitroot_def name_def)

lemma corpus_report: "contains corpus ''report.md''" "getitem corpus ''report.md'' = [doc_c]"
  by (simp_all add: contains_def getitem_def corpus_def)

lemma corpus_index: "contains corpus ''index.md''" "getitem corpus ''index.md'' = [doc_d, doc_e]"
  by (simp_all add: contains_def getitem_def corpus_def)

lemma corpus_absent: "\<not> contains corpus ''reprot.md''" "\<not> contains corpus ''zzz.md''"
  by (simp_all add: contains_def corpus_def)

lemma corpus_keys: "keys corpus = [''report.md'', ''index.md'']"
  by (simp add: keys_def corpus_def)

lemma paths:
  "Path ''/docs'' = \<lparr>anchor = ''/'', tail = [''docs'']\<rparr>"
  "filename doc_x = \<lparr>anchor = ''/'', tail = [''docs'', ''a'', ''x.md'']\<rparr>"
  "filename doc_c = \<lparr>anchor = ''/'', tail = [''docs'', ''c'', ''report.md'']\<rparr>"
  "filename doc_d = \<lparr>anchor = ''/'', tail = [''docs'', ''d'', ''index.md'']\<rparr>"
  "filename doc_e = \<lparr>anchor = ''/'', tail = [''docs'', ''e'', ''index.md'']\<rparr>"
  "filename doc_r = \<lparr>anchor = ''/'', tail = [''docs'', ''r'', ''locked.md'']\<rparr>"
  "filename doc_l = \<lparr>anchor = ''/'', tail = [''docs'', ''a'', ''long.md'']\<rparr>"
  by (simp_all add: doc_x_def doc_c_def doc_d_def doc_e_def doc_r_def doc_l_def Path_def
      splitroot_def)

lemma new_url_x:
  "str (joinpath (sibling_path (parent (filename doc_x)) (parent (filename doc_c)))
         (name (filename doc_c))) = ''../c/report.md''"
  by (simp add: paths parent_def name_def sibling_path_def joinpath_def Path_def splitroot_def
      str_def)


lemma under_docs:
  "relative_to (filename doc_x) (Path ''/docs'') = Inr \<lparr>anchor = [], tail = [''a'', ''x.md'']\<rparr>"
  "relative_to (filename doc_r) (Path ''/docs'') = Inr \<lparr>anchor = [], tail = [''r'', ''locked.md'']\<rparr>"
  by (simp_all add: paths relative_to_def)

lemma lines_x:
  "py_index (contents doc_x) 1 = Inr 1"
  "py_index (contents doc_x) 2 = Inr 2"
  "py_index (contents doc_x) 3 = Inr 3"
  "contents doc_x ! 1 = ''See [report.md](report.md#intro).\<newline>''"
  "contents doc_x ! 2 = ''Open report.md: [the report](report.md)\<newline>''"
  "contents doc_x ! 3 = ''[see](../b/report.md#s) for more\<newline>''"
  by (simp_all add: doc_x_def py_index_def)

lemma md_links:
  "md link1 = ''report.md''" "md link2 = ''report.md''" "md link3 = ''../b/report.md''"
  "md link4 = ''../d/index.md''" "md link_r = ''report.md''"
  by (simp_all add: markdown_link_def link1_def link2_def link3_def link4_def link_r_def)


lemma disk_fields:
  "canonical disk (filename doc_x) = filename doc_x"
  "canonical disk (filename doc_r) = filename doc_r"
  "denied disk (filename doc_r)"
  "\<not> denied disk (filename doc_x)"
  "room disk p = None"
  by (simp_all add: disk_def paths)

lemma targets_x:
  "target_exists disk doc_x (1, link1) = Inr False"
  "target_exists disk doc_x (2, link2) = Inr False"
  "target_exists disk doc_x (3, link3) = Inr False"
  "target_exists disk doc_x (4, link4) = Inr True"
  by (simp_all add: target_exists_def resolve_def exists_def md_links paths parent_def
      joinpath_def Path_def splitroot_def disk_def)


lemma str_split_whole: "sep \<notin> set s \<Longrightarrow> str_split sep s = [s]"
  by (induction s) auto

lemma Path_long_target: "Path long_target = \<lparr>anchor = [], tail = [long_target]\<rparr>"
proof -
  have n: "long_target \<noteq> []" "long_target \<noteq> ''.''" "CHR ''/'' \<notin> set long_target"
    by (auto simp: long_target_def dest: arg_cong [where f = length])
  have "take 1 long_target = ''a''"
    by (simp add: long_target_def)
  then have "splitroot long_target = ([], long_target)"
    by (simp add: splitroot_def)
  then show ?thesis
    by (simp add: Path_def n str_split_whole)
qed

lemma target_l: "target_exists disk doc_l (0, markdown_link 0 ''big'' long_target None) = Inl OSError"
proof -
  have "md (markdown_link 0 ''big'' long_target None) = long_target"
    by (simp add: markdown_link_def)
  moreover have "long_target \<noteq> ''..''" "255 < length long_target"
    by (auto simp: long_target_def dest: arg_cong [where f = length])
  ultimately show ?thesis
    by (simp add: target_exists_def resolve_def exists_def parent_def joinpath_def
        Path_long_target disk_def paths)
qed

subsection \<open>The classifier\<close>

lemma close_loop_eq:
  "close_loop s word cutoff result ps =
     result @ map (\<lambda>x. (ratio s x word, x))
       (filter (\<lambda>x. real_quick_ratio s x word \<ge> cutoff \<and> quick_ratio s x word \<ge> cutoff
                  \<and> ratio s x word \<ge> cutoff) ps)"
  by (induction ps arbitrary: result) auto

lemma exact_match_loop:
  "exact_match (classify_loop s lk res ps) =
     exact_match res @ map (\<lambda>p. (p, getitem lk (name (Path (md (snd p))))))
       (filter (\<lambda>p. contains lk (name (Path (md (snd p))))
                  \<and> length (getitem lk (name (Path (md (snd p))))) = 1) ps)"
  by (induction ps arbitrary: res) (simp_all add: classify_step_def Let_def)

lemma exact_matches_loop:
  "exact_matches (classify_loop s lk res ps) =
     exact_matches res @ map (\<lambda>p. (p, getitem lk (name (Path (md (snd p))))))
       (filter (\<lambda>p. contains lk (name (Path (md (snd p))))
                  \<and> length (getitem lk (name (Path (md (snd p))))) \<noteq> 1) ps)"
  by (induction ps arbitrary: res) (simp_all add: classify_step_def Let_def)

lemma suggestions_loop:
  "suggestions (classify_loop s lk res ps) =
     suggestions res @ map (\<lambda>p. (p, concat (map (getitem lk)
           (get_close_matches s (name (Path (md (snd p)))) (keys lk) 3 0.8))))
       (filter (\<lambda>p. \<not> contains lk (name (Path (md (snd p))))
                  \<and> get_close_matches s (name (Path (md (snd p)))) (keys lk) 3 0.8 \<noteq> []) ps)"
  by (induction ps arbitrary: res) (simp_all add: classify_step_def Let_def)

lemma no_matches_loop:
  "no_matches (classify_loop s lk res ps) =
     no_matches res @ map (\<lambda>p. (p, []))
       (filter (\<lambda>p. \<not> contains lk (name (Path (md (snd p))))
                  \<and> get_close_matches s (name (Path (md (snd p)))) (keys lk) 3 0.8 = []) ps)"
  by (induction ps arbitrary: res) (simp_all add: classify_step_def Let_def)

lemma nlargest_set: "set (nlargest n xs) \<subseteq> set xs"
  unfolding nlargest_def using set_take_subset[of n "rev (sort xs)"] by simp

lemma nlargest_descending: "sorted (rev (nlargest n xs))"
  by (simp add: nlargest_def rev_take sorted_wrt_drop)

lemma nlargest_best:
  assumes "y \<in># mset xs - mset (nlargest n xs)" "x \<in> set (nlargest n xs)"
  shows "y \<le> x"
proof -
  let ?r = "rev (sort xs)"
  have "mset xs = mset (take n ?r) + mset (drop n ?r)"
    by (metis append_take_drop_id mset_append mset_rev mset_sort)
  then have "mset xs - mset (nlargest n xs) = mset (drop n ?r)"
    by (simp add: nlargest_def)
  with assms have y: "y \<in> set (drop n ?r)" by simp
  have "sorted_wrt (\<ge>) ?r" by (simp add: sorted_wrt_rev)
  then have "sorted_wrt (\<ge>) (take n ?r @ drop n ?r)" by simp
  then show ?thesis using y assms(2) unfolding sorted_wrt_append nlargest_def by blast
qed


lemma classify_step_mset:
  "mset (map fst (no_matches (classify_step s lk res p)))
     + mset (map fst (suggestions (classify_step s lk res p)))
     + mset (map fst (exact_match (classify_step s lk res p)))
     + mset (map fst (exact_matches (classify_step s lk res p)))
   = mset (map fst (no_matches res)) + mset (map fst (suggestions res))
     + mset (map fst (exact_match res)) + mset (map fst (exact_matches res)) + {#p#}"
  by (simp add: classify_step_def Let_def)

lemma classify_loop_mset:
  "mset (map fst (no_matches (classify_loop s lk res ps)))
     + mset (map fst (suggestions (classify_loop s lk res ps)))
     + mset (map fst (exact_match (classify_loop s lk res ps)))
     + mset (map fst (exact_matches (classify_loop s lk res ps)))
   = mset (map fst (no_matches res)) + mset (map fst (suggestions res))
     + mset (map fst (exact_match res)) + mset (map fst (exact_matches res)) + mset ps"
proof (induction ps arbitrary: res)
  case Nil
  show ?case by simp
next
  case (Cons p ps)
  show ?case
    unfolding classify_loop.simps Cons.IH classify_step_mset by simp
qed

lemma get_close_matches_length:
  "length (get_close_matches s word ps n cutoff) =
     min n (length (filter (\<lambda>x. real_quick_ratio s x word \<ge> cutoff
        \<and> quick_ratio s x word \<ge> cutoff \<and> ratio s x word \<ge> cutoff) ps))"
  by (simp add: get_close_matches_def nlargest_def close_loop_eq min.commute)

lemma get_close_matches_set:
  assumes "k \<in> set (get_close_matches s word ps n cutoff)"
  shows "k \<in> set ps \<and> real_quick_ratio s k word \<ge> cutoff
       \<and> quick_ratio s k word \<ge> cutoff \<and> ratio s k word \<ge> cutoff"
proof -
  from assms obtain r where "(r, k) \<in> set (nlargest n (close_loop s word cutoff [] ps))"
    by (auto simp: get_close_matches_def)
  with nlargest_set have "(r, k) \<in> set (close_loop s word cutoff [] ps)" by blast
  then show ?thesis by (auto simp: close_loop_eq)
qed

lemma get_close_matches_scores:
  "map (\<lambda>k. ratio s k word) (get_close_matches s word ps n cutoff)
     = map fst (nlargest n (close_loop s word cutoff [] ps))"
proof -
  have "\<forall>e \<in> set (nlargest n (close_loop s word cutoff [] ps)). fst e = ratio s (snd e) word"
    using nlargest_set[of n "close_loop s word cutoff [] ps"] by (auto simp: close_loop_eq)
  then show ?thesis by (simp add: get_close_matches_def comp_def)
qed

lemma fst_mono_lex: "(a::real \<times> string) \<le> b \<Longrightarrow> fst a \<le> fst b"
  by (cases a, cases b) (auto simp: less_eq_prod_def)

lemma get_close_matches_descending:
  "sorted (rev (map (\<lambda>k. ratio s k word) (get_close_matches s word ps n cutoff)))"
proof -
  have "sorted (rev (nlargest n (close_loop s word cutoff [] ps)))"
    by (rule nlargest_descending)
  then have "sorted (map fst (rev (nlargest n (close_loop s word cutoff [] ps))))"
    unfolding sorted_map by (rule sorted_wrt_mono_rel[rotated]) (simp add: fst_mono_lex)
  then show ?thesis by (simp add: get_close_matches_scores rev_map)
qed

lemma get_close_matches_best:
  assumes "k \<in> set ps" 
      and "real_quick_ratio s k word \<ge> cutoff" "quick_ratio s k word \<ge> cutoff"
      and "ratio s k word \<ge> cutoff"
      and "k \<notin> set (get_close_matches s word ps n cutoff)"
      and "k' \<in> set (get_close_matches s word ps n cutoff)"
  shows "ratio s k word \<le> ratio s k' word"
proof -
  let ?xs = "close_loop s word cutoff [] ps"
  have in_xs: "(ratio s k word, k) \<in> set ?xs" using assms(1-4) by (auto simp: close_loop_eq)
  have "(ratio s k word, k) \<notin> set (nlargest n ?xs)"
    using assms(5) by (force simp: get_close_matches_def)
  then have "count (mset (nlargest n ?xs)) (ratio s k word, k) = 0"
    by (simp add: count_eq_zero_iff)
  moreover have "0 < count (mset ?xs) (ratio s k word, k)" using in_xs by simp
  ultimately have rest: "(ratio s k word, k) \<in># mset ?xs - mset (nlargest n ?xs)"
    by (metis count_diff count_greater_zero_iff diff_zero)
  from assms(6) obtain r where r: "(r, k') \<in> set (nlargest n ?xs)"
    by (auto simp: get_close_matches_def)
  with nlargest_set have "(r, k') \<in> set ?xs" by blast
  then have "r = ratio s k' word" by (auto simp: close_loop_eq)
  with nlargest_best[OF rest r] show ?thesis by (auto dest: fst_mono_lex)
qed

text \<open>
  C1. A broken link whose file name is a key of the lookup goes to \<open>exact_match\<close> when the
  key has exactly one document and to \<open>exact_matches\<close> when it has more than one, in both
  cases with exactly the documents stored under the key, and it is in neither list with
  any other candidates.
\<close>

theorem classify_exact_key:
  assumes "problem \<in> set broken_urls"
      and "key = name (Path (md (snd problem)))"
      and "contains lookup key"
      and "matches = getitem lookup key"
      and "res = classify_broken_urls s lookup broken_urls"
  shows "(length matches = 1 \<longrightarrow>
            (problem, matches) \<in> set (exact_match res)
            \<and> problem \<notin> fst ` set (exact_matches res))
       \<and> (1 < length matches \<longrightarrow>
            (problem, matches) \<in> set (exact_matches res)
            \<and> problem \<notin> fst ` set (exact_match res))
       \<and> (\<forall>ms. (problem, ms) \<in> set (exact_match res) \<union> set (exact_matches res)
            \<longrightarrow> ms = matches)"
  using assms(1,3)
  unfolding assms(2,4,5) classify_broken_urls_def exact_match_loop exact_matches_loop
  by (auto simp: image_iff)

theorem classify_exact_key_witness:
  "(3 :: int, link_to ''../b/report.md'')
     \<in> set [(3, link_to ''../b/report.md''), (5, link_to ''index.md'')]
   \<and> contains corpus (name (Path (md (snd (3 :: int, link_to ''../b/report.md'')))))
   \<and> length (getitem corpus ''report.md'') = 1
   \<and> ((3, link_to ''../b/report.md''), [doc_c])
        \<in> set (exact_match (classify_broken_urls scores corpus
               [(3, link_to ''../b/report.md''), (5, link_to ''index.md'')]))
   \<and> (5 :: int, link_to ''index.md'')
        \<in> set [(3, link_to ''../b/report.md''), (5, link_to ''index.md'')]
   \<and> contains corpus (name (Path (md (snd (5 :: int, link_to ''index.md'')))))
   \<and> 1 < length (getitem corpus ''index.md'')
   \<and> ((5, link_to ''index.md''), [doc_d, doc_e])
        \<in> set (exact_matches (classify_broken_urls scores corpus
               [(3, link_to ''../b/report.md''), (5, link_to ''index.md'')]))"
proof -
  let ?p = "(3 :: int, link_to ''../b/report.md'')" and ?q = "(5 :: int, link_to ''index.md'')"
  have p: "?p \<in> set [?p, ?q]" and q: "?q \<in> set [?p, ?q]" by simp_all
  have kp: "''report.md'' = name (Path (md (snd ?p)))" by (simp add: md_link_to name_report)
  have kq: "''index.md'' = name (Path (md (snd ?q)))" by (simp add: md_link_to name_index)
  have cp: "contains corpus (name (Path (md (snd ?p))))"
    using corpus_report(1) kp by simp
  have cq: "contains corpus (name (Path (md (snd ?q))))"
    using corpus_index(1) kq by simp
  have lp: "length (getitem corpus ''report.md'') = 1" by (simp add: corpus_report)
  have lq: "1 < length (getitem corpus ''index.md'')" by (simp add: corpus_index)
  have rp: "(?p, [doc_c]) \<in> set (exact_match (classify_broken_urls scores corpus [?p, ?q]))"
    using classify_exact_key [OF p kp corpus_report(1) corpus_report(2) [symmetric] refl]
    by simp
  have rq: "(?q, [doc_d, doc_e])
              \<in> set (exact_matches (classify_broken_urls scores corpus [?p, ?q]))"
    using classify_exact_key [OF q kq corpus_index(1) corpus_index(2) [symmetric] refl]
    by simp
  show ?thesis
    using p cp lp rp q cq lq rq by blast
qed

text \<open>
  C2. A broken link whose file name is not a key of the lookup is matched against all
  keys by \<open>get_close_matches\<close> with cutoff 0.8 and at most 3 results. The matched keys are
  keys that pass the cutoff, there are 3 of them or all that pass, no key left out scores
  higher than a matched one, and they come in descending order of the ratio. With at
  least one matched key the link goes to \<open>suggestions\<close> with the documents under the
  matched keys, in that order; with none it goes to \<open>no_matches\<close> with an empty list.
\<close>

theorem classify_missing_key:
  assumes "problem \<in> set broken_urls"
      and "key = name (Path (md (snd problem)))"
      and "\<not> contains lookup key"
      and "suggested = get_close_matches s key (keys lookup) 3 0.8"
      and "res = classify_broken_urls s lookup broken_urls"
  shows "length suggested = min 3 (length (filter (\<lambda>k. real_quick_ratio s k key \<ge> 0.8
             \<and> quick_ratio s k key \<ge> 0.8 \<and> ratio s k key \<ge> 0.8) (keys lookup)))
       \<and> (\<forall>k \<in> set suggested. k \<in> set (keys lookup) \<and> real_quick_ratio s k key \<ge> 0.8
             \<and> quick_ratio s k key \<ge> 0.8 \<and> ratio s k key \<ge> 0.8)
       \<and> (\<forall>k \<in> set (keys lookup). \<forall>k' \<in> set suggested.
             real_quick_ratio s k key \<ge> 0.8 \<and> quick_ratio s k key \<ge> 0.8
             \<and> ratio s k key \<ge> 0.8 \<and> k \<notin> set suggested
             \<longrightarrow> ratio s k key \<le> ratio s k' key)
       \<and> sorted (rev (map (\<lambda>k. ratio s k key) suggested))
       \<and> (suggested \<noteq> [] \<longrightarrow>
             (problem, concat (map (getitem lookup) suggested)) \<in> set (suggestions res)
             \<and> problem \<notin> fst ` set (no_matches res))
       \<and> (suggested = [] \<longrightarrow>
             (problem, []) \<in> set (no_matches res)
             \<and> problem \<notin> fst ` set (suggestions res))"
proof -
  have len: "length suggested = min 3 (length (filter (\<lambda>k. real_quick_ratio s k key \<ge> 0.8
             \<and> quick_ratio s k key \<ge> 0.8 \<and> ratio s k key \<ge> 0.8) (keys lookup)))"
    unfolding assms(4) by (rule get_close_matches_length)
  have mem: "\<forall>k \<in> set suggested. k \<in> set (keys lookup) \<and> real_quick_ratio s k key \<ge> 0.8
             \<and> quick_ratio s k key \<ge> 0.8 \<and> ratio s k key \<ge> 0.8"
    unfolding assms(4) using get_close_matches_set by blast
  have best: "\<forall>k \<in> set (keys lookup). \<forall>k' \<in> set suggested.
             real_quick_ratio s k key \<ge> 0.8 \<and> quick_ratio s k key \<ge> 0.8
             \<and> ratio s k key \<ge> 0.8 \<and> k \<notin> set suggested
             \<longrightarrow> ratio s k key \<le> ratio s k' key"
    unfolding assms(4) using get_close_matches_best by blast
  have desc: "sorted (rev (map (\<lambda>k. ratio s k key) suggested))"
    unfolding assms(4) by (rule get_close_matches_descending)
  have some: "suggested \<noteq> [] \<longrightarrow>
             (problem, concat (map (getitem lookup) suggested)) \<in> set (suggestions res)
             \<and> problem \<notin> fst ` set (no_matches res)"
    using assms(1,3)
    unfolding assms(2,4,5) classify_broken_urls_def suggestions_loop no_matches_loop
    by (auto simp: image_iff)
  have none: "suggested = [] \<longrightarrow>
             (problem, []) \<in> set (no_matches res)
             \<and> problem \<notin> fst ` set (suggestions res)"
    using assms(1,3)
    unfolding assms(2,4,5) classify_broken_urls_def suggestions_loop no_matches_loop
    by (auto simp: image_iff)
  from len mem best desc some none show ?thesis by blast
qed

theorem classify_missing_key_witness:
  "(7 :: int, link_to ''reprot.md'')
     \<in> set [(7, link_to ''reprot.md''), (9, link_to ''../zzz.md'')]
   \<and> \<not> contains corpus (name (Path (md (snd (7 :: int, link_to ''reprot.md'')))))
   \<and> get_close_matches scores ''reprot.md'' (keys corpus) 3 0.8 = [''report.md'']
   \<and> ((7, link_to ''reprot.md''), [doc_c])
        \<in> set (suggestions (classify_broken_urls scores corpus
               [(7, link_to ''reprot.md''), (9, link_to ''../zzz.md'')]))
   \<and> (9 :: int, link_to ''../zzz.md'')
        \<in> set [(7, link_to ''reprot.md''), (9, link_to ''../zzz.md'')]
   \<and> \<not> contains corpus (name (Path (md (snd (9 :: int, link_to ''../zzz.md'')))))
   \<and> get_close_matches scores ''zzz.md'' (keys corpus) 3 0.8 = []
   \<and> ((9, link_to ''../zzz.md''), [])
        \<in> set (no_matches (classify_broken_urls scores corpus
               [(7, link_to ''reprot.md''), (9, link_to ''../zzz.md'')]))"
proof -
  let ?p = "(7 :: int, link_to ''reprot.md'')" and ?q = "(9 :: int, link_to ''../zzz.md'')"
  have p: "?p \<in> set [?p, ?q]" and q: "?q \<in> set [?p, ?q]" by simp_all
  have kp: "''reprot.md'' = name (Path (md (snd ?p)))" by (simp add: md_link_to name_reprot)
  have kq: "''zzz.md'' = name (Path (md (snd ?q)))" by (simp add: md_link_to name_zzz)
  have cp: "\<not> contains corpus (name (Path (md (snd ?p))))"
    using corpus_absent(1) kp by simp
  have cq: "\<not> contains corpus (name (Path (md (snd ?q))))"
    using corpus_absent(2) kq by simp
  have sp: "[''report.md''] = get_close_matches scores ''reprot.md'' (keys corpus) 3 0.8"
    unfolding corpus_keys by (simp add: get_close_matches_def nlargest_def scores_def)
  have sq: "[] = get_close_matches scores ''zzz.md'' (keys corpus) 3 0.8"
    unfolding corpus_keys by (simp add: get_close_matches_def nlargest_def scores_def)
  have "(?p, concat (map (getitem corpus) [''report.md'']))
          \<in> set (suggestions (classify_broken_urls scores corpus [?p, ?q]))"
    using classify_missing_key [OF p kp corpus_absent(1) sp refl] by blast
  then have rp: "(?p, [doc_c]) \<in> set (suggestions (classify_broken_urls scores corpus [?p, ?q]))"
    by (simp add: corpus_report)
  have rq: "(?q, []) \<in> set (no_matches (classify_broken_urls scores corpus [?p, ?q]))"
    using classify_missing_key [OF q kq corpus_absent(2) sq refl] by blast
  show ?thesis
    using p cp sp [symmetric] rp q cq sq [symmetric] rq by blast
qed

text \<open>
  C8. Every broken link given to \<open>classify_broken_urls\<close> is in exactly one of the four
  lists: counted with repetitions, the links of the four lists together are the input,
  and no link is in two lists.
\<close>

theorem classify_buckets_partition:
  assumes "res = classify_broken_urls s lookup broken_urls"
  shows "mset (map fst (no_matches res)) + mset (map fst (suggestions res))
           + mset (map fst (exact_match res)) + mset (map fst (exact_matches res))
         = mset broken_urls
       \<and> fst ` set (no_matches res) \<inter> fst ` set (suggestions res) = {}
       \<and> fst ` set (no_matches res) \<inter> fst ` set (exact_match res) = {}
       \<and> fst ` set (no_matches res) \<inter> fst ` set (exact_matches res) = {}
       \<and> fst ` set (suggestions res) \<inter> fst ` set (exact_match res) = {}
       \<and> fst ` set (suggestions res) \<inter> fst ` set (exact_matches res) = {}
       \<and> fst ` set (exact_match res) \<inter> fst ` set (exact_matches res) = {}"
proof -
  have m: "mset (map fst (no_matches res)) + mset (map fst (suggestions res))
           + mset (map fst (exact_match res)) + mset (map fst (exact_matches res))
         = mset broken_urls"
    unfolding assms classify_broken_urls_def classify_loop_mset by simp
  have d: "fst ` set (no_matches res) \<inter> fst ` set (suggestions res) = {}"
       "fst ` set (no_matches res) \<inter> fst ` set (exact_match res) = {}"
       "fst ` set (no_matches res) \<inter> fst ` set (exact_matches res) = {}"
       "fst ` set (suggestions res) \<inter> fst ` set (exact_match res) = {}"
       "fst ` set (suggestions res) \<inter> fst ` set (exact_matches res) = {}"
       "fst ` set (exact_match res) \<inter> fst ` set (exact_matches res) = {}"
    unfolding assms classify_broken_urls_def
      no_matches_loop suggestions_loop exact_match_loop exact_matches_loop
    by (auto simp: image_iff)
  from m d show ?thesis by simp
qed

theorem classify_buckets_partition_witness:
  "mset (map fst (no_matches (classify_broken_urls scores corpus
       [(3, link_to ''../b/report.md''), (5, link_to ''index.md'')])))
     + mset (map fst (suggestions (classify_broken_urls scores corpus
       [(3, link_to ''../b/report.md''), (5, link_to ''index.md'')])))
     + mset (map fst (exact_match (classify_broken_urls scores corpus
       [(3, link_to ''../b/report.md''), (5, link_to ''index.md'')])))
     + mset (map fst (exact_matches (classify_broken_urls scores corpus
       [(3, link_to ''../b/report.md''), (5, link_to ''index.md'')])))
   = {#(3, link_to ''../b/report.md''), (5, link_to ''index.md'')#}"
  using classify_buckets_partition [OF refl, of scores corpus
      "[(3, link_to ''../b/report.md''), (5, link_to ''index.md'')]"]
  by simp

subsection \<open>find_broken_urls\<close>

lemma find_broken_loop_ok:
  assumes "\<forall>r \<in> set rurls. \<exists>found. target_exists fs doc r = Inr found"
  shows "find_broken_loop fs doc problems rurls =
           Inr (problems @ filter (\<lambda>r. target_exists fs doc r = Inr False) rurls)"
  using assms by (induction rurls arbitrary: problems) auto

lemma find_broken_loop_fault:
  assumes "\<forall>r \<in> set before. \<exists>found. target_exists fs doc r = Inr found"
      and "target_exists fs doc rurl = Inl e"
  shows "find_broken_loop fs doc problems (before @ rurl # after) = Inl e"
  using assms by (induction before arbitrary: problems) auto

text \<open>
  C7, as amended. When resolving and testing every target of the document raises no
  exception, \<open>find_broken_urls\<close> returns the pairs of \<open>relative_links()\<close> whose target, joined
  to the directory of the document and resolved, does not exist: exactly those, each as
  the pair of line number and link it came as, in the order of the document. When
  resolving or testing a target raises, \<open>find_broken_urls\<close> raises the exception of the
  first such link and returns no list. In both cases the document and the file system
  are as they were.
\<close>

theorem find_broken_urls_missing_targets:
  "((\<forall>rurl \<in> set (relative_links doc). \<exists>found. target_exists fs doc rurl = Inr found) \<longrightarrow>
      find_broken_urls fs doc =
        (Inr (filter (\<lambda>rurl. target_exists fs doc rurl = Inr False) (relative_links doc)),
         doc, fs)
      \<and> subseq (filter (\<lambda>rurl. target_exists fs doc rurl = Inr False) (relative_links doc))
           (relative_links doc))
   \<and> (\<forall>before rurl after e.
         relative_links doc = before @ rurl # after
         \<and> (\<forall>r \<in> set before. \<exists>found. target_exists fs doc r = Inr found)
         \<and> target_exists fs doc rurl = Inl e
         \<longrightarrow> find_broken_urls fs doc = (Inl e, doc, fs))
   \<and> snd (find_broken_urls fs doc) = (doc, fs)"
  by (auto simp: find_broken_urls_def find_broken_loop_ok find_broken_loop_fault)

theorem find_broken_urls_missing_targets_witness:
  "relative_links doc_x = [(1, link1), (2, link2), (3, link3), (4, link4)]
   \<and> target_exists disk doc_x (1, link1) = Inr False
   \<and> target_exists disk doc_x (2, link2) = Inr False
   \<and> target_exists disk doc_x (3, link3) = Inr False
   \<and> target_exists disk doc_x (4, link4) = Inr True
   \<and> find_broken_urls disk doc_x = (Inr [(1, link1), (2, link2), (3, link3)], doc_x, disk)
   \<and> relative_links doc_l = [] @ (0, markdown_link 0 ''big'' long_target None) # []
   \<and> target_exists disk doc_l (0, markdown_link 0 ''big'' long_target None) = Inl OSError
   \<and> find_broken_urls disk doc_l = (Inl OSError, doc_l, disk)"
proof -
  have l: "relative_links doc_x = [(1, link1), (2, link2), (3, link3), (4, link4)]"
    by (simp add: doc_x_def)
  have ok: "\<forall>rurl \<in> set (relative_links doc_x). \<exists>found. target_exists disk doc_x rurl = Inr found"
    unfolding l using targets_x by auto
  have "find_broken_urls disk doc_x =
      (Inr (filter (\<lambda>rurl. target_exists disk doc_x rurl = Inr False) (relative_links doc_x)),
       doc_x, disk)"
    using find_broken_urls_missing_targets [of doc_x disk] ok by blast
  then have x: "find_broken_urls disk doc_x = (Inr [(1, link1), (2, link2), (3, link3)], doc_x, disk)"
    unfolding l by (simp add: targets_x)
  have ll: "relative_links doc_l = [] @ (0, markdown_link 0 ''big'' long_target None) # []"
    by (simp add: doc_l_def)
  have "find_broken_urls disk doc_l = (Inl OSError, doc_l, disk)"
    using find_broken_urls_missing_targets [of doc_l disk] ll target_l by fastforce
  with l targets_x x ll target_l show ?thesis by blast
qed

text \<open>
  C7 as stated fails for a link to a file name of 300 characters: the target does not
  exist, and \<open>find_broken_urls\<close> raises the OSError of \<open>exists()\<close> where the claim has it
  return the link.
\<close>

theorem long_name_counterexample:
  "relative_links doc_l = [(0, markdown_link 0 ''big'' long_target None)]
   \<and> canonical disk (joinpath (parent (filename doc_l)) long_target)
       = \<lparr>anchor = ''/'', tail = [''docs'', ''a'', long_target]\<rparr>
   \<and> files disk \<lparr>anchor = ''/'', tail = [''docs'', ''a'', long_target]\<rparr> = None
   \<and> \<not> dirs disk \<lparr>anchor = ''/'', tail = [''docs'', ''a'', long_target]\<rparr>
   \<and> fst (find_broken_urls disk doc_l) = Inl OSError
   \<and> fst (find_broken_urls disk doc_l) \<noteq> Inr [(0, markdown_link 0 ''big'' long_target None)]"
proof -
  have n: "long_target \<noteq> ''..''" "long_target \<noteq> ''x.md''" "long_target \<noteq> ''long.md''"
    by (auto simp: long_target_def dest: arg_cong [where f = length])
  have c: "canonical disk (joinpath (parent (filename doc_l)) long_target)
       = \<lparr>anchor = ''/'', tail = [''docs'', ''a'', long_target]\<rparr>"
    by (simp add: paths parent_def joinpath_def Path_long_target disk_def n)
  have f: "files disk \<lparr>anchor = ''/'', tail = [''docs'', ''a'', long_target]\<rparr> = None"
    by (simp add: disk_def paths n)
  have d: "\<not> dirs disk \<lparr>anchor = ''/'', tail = [''docs'', ''a'', long_target]\<rparr>"
    by (simp add: disk_def Path_def splitroot_def)
  have rl: "relative_links doc_l = [(0, markdown_link 0 ''big'' long_target None)]"
    by (simp add: doc_l_def)
  have r: "fst (find_broken_urls disk doc_l) = Inl OSError"
    unfolding find_broken_urls_def rl by (simp add: target_l)
  note rl
  with c f d r show ?thesis by simp
qed

subsection \<open>Replacing in a line\<close>

lemma replace_from_absent:
  "\<not> sublist old s \<Longrightarrow> replace_from old new s = s"
proof (induction s)
  case Nil
  show ?case by simp
next
  case (Cons c cs)
  then have "\<not> prefix old (c # cs)" and "\<not> sublist old cs"
    by (auto simp: sublist_Cons_right)
  with Cons.IH show ?case by simp
qed

lemma prefix_within:
  assumes "prefix old (pre @ old @ rest)" and "pre \<noteq> []"
  shows "prefix old (pre @ butlast old)"
proof (cases "old = []")
  case True
  then show ?thesis by simp
next
  case False
  have "length old \<le> length (pre @ butlast old)"
    using assms(2) False by (cases pre) auto
  moreover have "take (length (pre @ butlast old)) (pre @ old @ rest) = pre @ butlast old"
    using False by (simp add: butlast_conv_take)
  ultimately have "take (length old) (pre @ butlast old) = take (length old) (pre @ old @ rest)"
    by (metis min.absorb1 take_take)
  also have "\<dots> = old" using assms(1) by (metis append_eq_conv_conj prefix_def)
  finally show ?thesis by (metis take_is_prefix)
qed

lemma replace_from_first:
  assumes "old \<noteq> []" and "\<not> sublist old (pre @ butlast old)"
  shows "replace_from old new (pre @ old @ rest) = pre @ new @ replace_from old new rest"
  using assms(2)
proof (induction pre)
  case Nil
  obtain c cs where o: "old = c # cs" using assms(1) by (cases old) auto
  have "replace_from old new (old @ rest) = new @ replace_from old new (drop (length old) (old @ rest))"
    unfolding o by simp
  then show ?case by simp
next
  case (Cons p ps)
  have "\<not> prefix old ((p # ps) @ old @ rest)"
    using prefix_within [of old "p # ps" rest] Cons.prems by auto
  moreover have "\<not> sublist old (ps @ butlast old)"
    using Cons.prems by (auto simp: sublist_Cons_right)
  ultimately show ?case using Cons.IH by simp
qed

lemma leftmost_occurrence:
  assumes "old \<noteq> []" and "sublist old s"
  shows "\<exists>pre rest. s = pre @ old @ rest \<and> \<not> sublist old (pre @ butlast old)"
  using assms(2)
proof (induction s)
  case Nil
  with assms(1) show ?case by simp
next
  case (Cons c cs)
  show ?case
  proof (cases "prefix old (c # cs)")
    case True
    then obtain rest where "c # cs = [] @ old @ rest" by (auto simp: prefix_def)
    moreover have "\<not> sublist old ([] @ butlast old)"
    proof
      assume "sublist old ([] @ butlast old)"
      then obtain ps ss where "butlast old = ps @ old @ ss" by (auto simp: sublist_def)
      then have "length (butlast old) = length (ps @ old @ ss)" by simp
      then have "length old \<le> length (butlast old)" by simp
      moreover have "length (butlast old) < length old"
        by (metis assms(1) length_butlast diff_less length_greater_0_conv zero_less_one)
      ultimately show False by linarith
    qed
    ultimately show ?thesis by blast
  next
    case False
    with Cons.prems have "sublist old cs" by (simp add: sublist_Cons_right)
    with Cons.IH obtain pre rest where
      s: "cs = pre @ old @ rest" and n: "\<not> sublist old (pre @ butlast old)"
      by blast
    have "\<not> prefix old (c # pre @ butlast old)"
    proof
      assume "prefix old (c # pre @ butlast old)"
      moreover have "prefix (c # pre @ butlast old) (c # pre @ old @ rest)"
        by (simp add: prefix_def) (metis append_butlast_last_id append_assoc assms(1))
      ultimately have "prefix old (c # cs)" unfolding s by (rule prefix_order.trans)
      with False show False by simp
    qed
    with n have "\<not> sublist old ((c # pre) @ butlast old)"
      by (simp add: sublist_Cons_right)
    moreover have "c # cs = (c # pre) @ old @ rest" using s by simp
    ultimately show ?thesis by blast
  qed
qed

lemma pieces_exist:
  assumes "old \<noteq> []"
  shows "\<exists>segs. segs \<noteq> [] \<and> s = str_join old segs
           \<and> (\<forall>seg \<in> set (butlast segs). \<not> sublist old (seg @ butlast old))
           \<and> \<not> sublist old (last segs)"
proof (induction s rule: length_induct)
  case (1 s)
  show ?case
  proof (cases "sublist old s")
    case False
    then have "[s] \<noteq> [] \<and> s = str_join old [s]
           \<and> (\<forall>seg \<in> set (butlast [s]). \<not> sublist old (seg @ butlast old))
           \<and> \<not> sublist old (last [s])"
      by simp
    then show ?thesis by blast
  next
    case True
    from leftmost_occurrence [OF assms True] obtain pre rest where
      s: "s = pre @ old @ rest" and n: "\<not> sublist old (pre @ butlast old)"
      by blast
    have "length rest < length s" using s assms by simp
    with 1 obtain segs where segs: "segs \<noteq> []" "rest = str_join old segs"
      "\<forall>seg \<in> set (butlast segs). \<not> sublist old (seg @ butlast old)"
      "\<not> sublist old (last segs)"
      by blast
    obtain q qs where q: "segs = q # qs" using segs(1) by (cases segs) auto
    have "pre # segs \<noteq> [] \<and> s = str_join old (pre # segs)
           \<and> (\<forall>seg \<in> set (butlast (pre # segs)). \<not> sublist old (seg @ butlast old))
           \<and> \<not> sublist old (last (pre # segs))"
      using s n segs q by simp
    then show ?thesis by blast
  qed
qed

lemma replace_from_join:
  assumes "old \<noteq> []" and "segs \<noteq> []"
      and "\<forall>seg \<in> set (butlast segs). \<not> sublist old (seg @ butlast old)"
      and "\<not> sublist old (last segs)"
  shows "replace_from old new (str_join old segs) = str_join new segs"
  using assms(2,3,4)
proof (induction segs)
  case Nil
  then show ?case by simp
next
  case (Cons p ps)
  note prems = Cons.prems and IH = Cons.IH
  show ?case
  proof (cases ps)
    case Nil
    with prems show ?thesis by (simp add: replace_from_absent)
  next
    case (Cons q qs)
    with prems IH show ?thesis by (simp add: replace_from_first [OF assms(1)])
  qed
qed

lemma str_replace_once:
  assumes "old \<noteq> []" and "\<not> sublist old (pre @ butlast old)" and "\<not> sublist old post"
  shows "str_replace old new (pre @ old @ post) = pre @ new @ post"
  using assms by (simp add: str_replace_def replace_from_first replace_from_absent)

lemma str_replace_join:
  assumes "old \<noteq> []" and "segs \<noteq> []"
      and "\<forall>seg \<in> set (butlast segs). \<not> sublist old (seg @ butlast old)"
      and "\<not> sublist old (last segs)"
  shows "str_replace old new (str_join old segs) = str_join new segs"
  using assms by (simp add: str_replace_def replace_from_join)

subsection \<open>The loop of write_corrected_url\<close>

lemma correct_url_ok:
  assumes "py_index (contents doc) line = Inr i"
      and "relative_to (filename doc) rt = Inr rel"
  shows "correct_url relative_path rt doc ((line, u), m # ms) =
     (None, doc\<lparr>contents := (contents doc)[i := str_replace (md u)
        (str (joinpath (relative_path (parent (filename doc)) (parent (filename m)))
               (name (filename m))))
        (contents doc ! i)]\<rparr>)"
  using assms by (simp add: correct_url_def Let_def)

lemma correct_url_filename: "filename (snd (correct_url relative_path rt doc entry)) = filename doc"
  by (auto simp: correct_url_def Let_def split: prod.splits list.splits sum.splits)

lemma correct_loop_filename: "filename (snd (correct_loop relative_path rt doc problems)) = filename doc"
proof (induction problems arbitrary: doc)
  case Nil
  show ?case by simp
next
  case (Cons entry rest)
  show ?case
  proof (cases "correct_url relative_path rt doc entry")
    case (Pair r d)
    with correct_url_filename [of relative_path rt doc entry] have f: "filename d = filename doc"
      by simp
    show ?thesis
    proof (cases r)
      case None
      with Pair Cons.IH [of d] f show ?thesis by simp
    next
      case (Some e)
      with Pair f show ?thesis by simp
    qed
  qed
qed

lemma step1:
  "correct_url sibling_path (Path ''/docs'') doc_x ((1, link1), [doc_c]) =
     (None, doc_x\<lparr>contents := (contents doc_x)[1 := ''See [../c/report.md](../c/report.md#intro).\<newline>'']\<rparr>)"
  unfolding correct_url_ok [OF lines_x(1) under_docs(1)] new_url_x md_links lines_x(4)
  by (simp add: str_replace_def)

lemma step2:
  "correct_url sibling_path (Path ''/docs'') doc_x ((2, link2), [doc_c]) =
     (None, doc_x\<lparr>contents := (contents doc_x)[2 := ''Open ../c/report.md: [the report](../c/report.md)\<newline>'']\<rparr>)"
  unfolding correct_url_ok [OF lines_x(2) under_docs(1)] new_url_x md_links lines_x(5)
  by (simp add: str_replace_def)

lemma step3:
  "correct_url sibling_path (Path ''/docs'') doc_x ((3, link3), [doc_c]) =
     (None, doc_x\<lparr>contents := (contents doc_x)[3 := ''[see](../c/report.md#s) for more\<newline>'']\<rparr>)"
  unfolding correct_url_ok [OF lines_x(3) under_docs(1)] new_url_x md_links lines_x(6)
  by (simp add: str_replace_def)


lemma correct_loop_append:
  "correct_loop relative_path rt doc (xs @ ys) =
     (case correct_loop relative_path rt doc xs of
        (Some e, d) \<Rightarrow> (Some e, d)
      | (None, d) \<Rightarrow> correct_loop relative_path rt d ys)"
proof (induction xs arbitrary: doc)
  case Nil
  show ?case by simp
next
  case (Cons x xs)
  show ?case
    by (cases "correct_url relative_path rt doc x") (auto simp: Cons.IH split: option.splits)
qed

lemma correct_loop_reach:
  assumes "correct_loop relative_path rt doc before = (None, d)"
      and "correct_url relative_path rt d entry = (None, d')"
  shows "correct_loop relative_path rt doc (before @ entry # rest) =
           correct_loop relative_path rt d' rest"
  using assms by (simp add: correct_loop_append)

lemma write_corrected_url_doc:
  "fst (snd (write_corrected_url relative_path doc problems rt dry_run fs))
     = snd (correct_loop relative_path rt doc problems)"
  by (auto simp: write_corrected_url_def split: prod.splits option.splits)

lemma after_entry1:
  "correct_loop sibling_path (Path ''/docs'') doc_x [((1, link1), [doc_c])] =
     (None, doc_x\<lparr>contents := (contents doc_x)
        [1 := ''See [../c/report.md](../c/report.md#intro).\<newline>'']\<rparr>)"
  by (simp add: step1)

lemma lines_after_entry1:
  "py_index (contents (doc_x\<lparr>contents := (contents doc_x)
        [1 := ''See [../c/report.md](../c/report.md#intro).\<newline>'']\<rparr>)) 2 = Inr 2"
  "py_index (contents (doc_x\<lparr>contents := (contents doc_x)
        [1 := ''See [../c/report.md](../c/report.md#intro).\<newline>'']\<rparr>)) 3 = Inr 3"
  "contents (doc_x\<lparr>contents := (contents doc_x)
        [1 := ''See [../c/report.md](../c/report.md#intro).\<newline>'']\<rparr>) ! 2
     = ''Open report.md: [the report](report.md)\<newline>''"
  "contents (doc_x\<lparr>contents := (contents doc_x)
        [1 := ''See [../c/report.md](../c/report.md#intro).\<newline>'']\<rparr>) ! 3
     = ''[see](../b/report.md#s) for more\<newline>''"
  by (simp_all add: doc_x_def py_index_def)

lemma run1:
  "write_corrected_url sibling_path doc_x [((1, link1), [doc_c])] (Path ''/docs'') True disk =
     (Inr PyNone,
      doc_x\<lparr>contents := (contents doc_x)[1 := ''See [../c/report.md](../c/report.md#intro).\<newline>'']\<rparr>,
      disk)"
  by (simp add: write_corrected_url_def step1)

lemma run2:
  "write_corrected_url sibling_path doc_x [((2, link2), [doc_c])] (Path ''/docs'') True disk =
     (Inr PyNone,
      doc_x\<lparr>contents := (contents doc_x)[2 := ''Open ../c/report.md: [the report](../c/report.md)\<newline>'']\<rparr>,
      disk)"
  by (simp add: write_corrected_url_def step2)

lemma run3:
  "write_corrected_url sibling_path doc_x [((3, link3), [doc_c])] (Path ''/docs'') False disk =
     (Inr PyNone,
      doc_x\<lparr>contents := (contents doc_x)[3 := ''[see](../c/report.md#s) for more\<newline>'']\<rparr>,
      disk\<lparr>files := (files disk)(filename doc_x \<mapsto>
         concat ((contents doc_x)[3 := ''[see](../c/report.md#s) for more\<newline>'']))\<rparr>)"
  by (simp add: write_corrected_url_def step3 write_lines_def disk_fields)

lemma contents_x:
  "contents doc_x =
     [''# X\<newline>'',
      ''See [report.md](report.md#intro).\<newline>'',
      ''Open report.md: [the report](report.md)\<newline>'',
      ''[see](../b/report.md#s) for more\<newline>'',
      ''[home](../d/index.md)\<newline>'']"
  by (simp add: doc_x_def)

lemma run3_full:
  "write_corrected_url sibling_path doc_x [((3, link3), [doc_c])] (Path ''/docs'') False
     (disk\<lparr>room := (\<lambda>p. Some 0)\<rparr>) =
     (Inl OSError,
      doc_x\<lparr>contents := (contents doc_x)[3 := ''[see](../c/report.md#s) for more\<newline>'']\<rparr>,
      disk\<lparr>room := (\<lambda>p. Some 0), files := (files disk)(filename doc_x \<mapsto> [])\<rparr>)"
proof -
  have "write_lines (disk\<lparr>room := (\<lambda>p. Some 0)\<rparr>) (filename doc_x)
          ((contents doc_x)[3 := ''[see](../c/report.md#s) for more\<newline>'']) =
        (Some OSError,
         disk\<lparr>room := (\<lambda>p. Some 0), files := (files disk)(filename doc_x \<mapsto> [])\<rparr>)"
    unfolding contents_x by (simp add: write_lines_def disk_fields)
  then show ?thesis
    by (simp add: write_corrected_url_def step3)
qed


text \<open>
  C3, as amended. When the loop of \<open>write_corrected_url\<close> reaches an entry (the entries
  before it applied without an exception, leaving the document \<open>d\<close>) whose line number
  is valid and whose target is not empty, in a document under the root, the new link is
  the relative path from the directory of the document to the directory of the first
  match, joined with the file name of the match. If the old target occurs exactly once in
  the line as the earlier entries left it, the step substitutes it by the new link and
  changes nothing else: what stands before and behind it in the line (link text, anchor,
  prose) and every other line are as the earlier entries left them. The entries behind it
  are then applied to the result, which is the document of the call when the entry is the
  last.
\<close>

theorem correct_url_rewrites_target:
  assumes "correct_loop relative_path rt doc before = (None, d)"
      and "py_index (contents d) line = Inr i"
      and "relative_to (filename doc) rt = Inr rel"
      and "md u \<noteq> []"
      and "contents d ! i = pre @ md u @ post"
      and "\<not> sublist (md u) (pre @ butlast (md u))"
      and "\<not> sublist (md u) post"
      and "new_url = joinpath (relative_path (parent (filename doc)) (parent (filename m)))
             (name (filename m))"
      and "d' = d\<lparr>contents := (contents d)[i := pre @ str new_url @ post]\<rparr>"
  shows "correct_url relative_path rt d ((line, u), m # ms) = (None, d')
       \<and> correct_loop relative_path rt doc (before @ ((line, u), m # ms) # rest) =
           correct_loop relative_path rt d' rest
       \<and> fst (snd (write_corrected_url relative_path doc (before @ ((line, u), m # ms) # rest)
            rt dry_run fs)) = snd (correct_loop relative_path rt d' rest)
       \<and> fst (snd (write_corrected_url relative_path doc (before @ [((line, u), m # ms)])
            rt dry_run fs)) = d'"
proof -
  have f: "filename d = filename doc"
    using correct_loop_filename [of relative_path rt doc before] assms(1) by simp
  have r: "relative_to (filename d) rt = Inr rel" using assms(3) f by simp
  have step: "correct_url relative_path rt d ((line, u), m # ms) = (None, d')"
    unfolding correct_url_ok [OF assms(2) r] assms(5,8,9) f
    by (simp add: str_replace_once [OF assms(4,6,7)])
  have loop: "correct_loop relative_path rt doc (before @ ((line, u), m # ms) # rest) =
           correct_loop relative_path rt d' rest" for rest
    by (rule correct_loop_reach [OF assms(1) step])
  show ?thesis
    using step loop [of rest] loop [of "[]"] by (simp add: write_corrected_url_doc)
qed

theorem correct_url_rewrites_target_witness:
  "correct_loop sibling_path (Path ''/docs'') doc_x [((1, link1), [doc_c])] =
     (None, doc_x\<lparr>contents := (contents doc_x)
        [1 := ''See [../c/report.md](../c/report.md#intro).\<newline>'']\<rparr>)
   \<and> py_index (contents (doc_x\<lparr>contents := (contents doc_x)
        [1 := ''See [../c/report.md](../c/report.md#intro).\<newline>'']\<rparr>)) 3 = Inr 3
   \<and> relative_to (filename doc_x) (Path ''/docs'') = Inr \<lparr>anchor = [], tail = [''a'', ''x.md'']\<rparr>
   \<and> md link3 \<noteq> []
   \<and> contents (doc_x\<lparr>contents := (contents doc_x)
        [1 := ''See [../c/report.md](../c/report.md#intro).\<newline>'']\<rparr>) ! 3
       = ''[see]('' @ md link3 @ ''#s) for more\<newline>''
   \<and> \<not> sublist (md link3) (''[see]('' @ butlast (md link3))
   \<and> \<not> sublist (md link3) ''#s) for more\<newline>''
   \<and> str (joinpath (sibling_path (parent (filename doc_x)) (parent (filename doc_c)))
          (name (filename doc_c))) = ''../c/report.md''
   \<and> contents (fst (snd (write_corrected_url sibling_path doc_x
          ([((1, link1), [doc_c])] @ [((3, link3), [doc_c])]) (Path ''/docs'') True disk))) =
       [''# X\<newline>'',
        ''See [../c/report.md](../c/report.md#intro).\<newline>'',
        ''Open report.md: [the report](report.md)\<newline>'',
        ''[see](../c/report.md#s) for more\<newline>'',
        ''[home](../d/index.md)\<newline>'']"
proof -
  let ?d = "doc_x\<lparr>contents := (contents doc_x)
        [1 := ''See [../c/report.md](../c/report.md#intro).\<newline>'']\<rparr>"
  have h4: "md link3 \<noteq> []" by (simp add: md_links)
  have h5: "contents ?d ! 3 = ''[see]('' @ md link3 @ ''#s) for more\<newline>''"
    unfolding lines_after_entry1 md_links by simp
  have h6: "\<not> sublist (md link3) (''[see]('' @ butlast (md link3))"
    unfolding md_links by (simp add: sublist_code)
  have h7: "\<not> sublist (md link3) ''#s) for more\<newline>''"
    unfolding md_links by (simp add: sublist_code)
  have "fst (snd (write_corrected_url sibling_path doc_x
          ([((1, link1), [doc_c])] @ [((3, link3), [doc_c])]) (Path ''/docs'') True disk)) =
       ?d\<lparr>contents := (contents ?d)[3 := ''[see]('' @ ''../c/report.md'' @ ''#s) for more\<newline>'']\<rparr>"
    using correct_url_rewrites_target [where m = doc_c and ms = "[]" and rest = "[]"
        and dry_run = True and fs = disk, OF after_entry1 lines_after_entry1(2) under_docs(1)
        h4 h5 h6 h7 refl refl]
    unfolding new_url_x by blast
  then have "contents (fst (snd (write_corrected_url sibling_path doc_x
          ([((1, link1), [doc_c])] @ [((3, link3), [doc_c])]) (Path ''/docs'') True disk))) =
       [''# X\<newline>'',
        ''See [../c/report.md](../c/report.md#intro).\<newline>'',
        ''Open report.md: [the report](report.md)\<newline>'',
        ''[see](../c/report.md#s) for more\<newline>'',
        ''[home](../d/index.md)\<newline>'']"
    by (simp add: doc_x_def)
  with after_entry1 lines_after_entry1(2) under_docs(1) h4 h5 h6 h7 new_url_x
  show ?thesis by blast
qed

text \<open>
  C3 as stated fails where the link text holds the target: in
  \<open>See [report.md](report.md#intro).\<close> the link text is rewritten together with the
  target.
\<close>

theorem link_text_counterexample:
  "contents (fst (snd (write_corrected_url sibling_path doc_x [((1, link1), [doc_c])]
       (Path ''/docs'') True disk))) ! 1
     = ''See [../c/report.md](../c/report.md#intro).\<newline>''
   \<and> contents doc_x ! 1 = ''See ['' @ url_text link1 @ '']('' @ md link1 @ ''#intro).\<newline>''
   \<and> contents (fst (snd (write_corrected_url sibling_path doc_x [((1, link1), [doc_c])]
       (Path ''/docs'') True disk))) ! 1
     \<noteq> ''See ['' @ url_text link1 @ '']('' @ ''../c/report.md'' @ ''#intro).\<newline>''"
  unfolding run1 by (simp add: doc_x_def link1_def markdown_link_def)

text \<open>
  C4, as amended. Every line is, in one way found from the left, a sequence of pieces
  with the old target between them, no occurrence beginning inside a piece. The
  replacement made for an entry, in the line as the earlier entries left it, puts the new
  link between the same pieces: every one of the occurrences is substituted, not only the
  first. The entries behind it are then applied to the result.
\<close>

theorem correct_url_replaces_every_occurrence:
  assumes "correct_loop relative_path rt doc before = (None, d)"
      and "py_index (contents d) line = Inr i"
      and "relative_to (filename doc) rt = Inr rel"
      and "md u \<noteq> []"
      and "new_url = joinpath (relative_path (parent (filename doc)) (parent (filename m)))
             (name (filename m))"
  shows "(\<exists>segs. segs \<noteq> [] \<and> contents d ! i = str_join (md u) segs
            \<and> (\<forall>seg \<in> set (butlast segs). \<not> sublist (md u) (seg @ butlast (md u)))
            \<and> \<not> sublist (md u) (last segs))
       \<and> (\<forall>segs. segs \<noteq> [] \<and> contents d ! i = str_join (md u) segs
            \<and> (\<forall>seg \<in> set (butlast segs). \<not> sublist (md u) (seg @ butlast (md u)))
            \<and> \<not> sublist (md u) (last segs)
            \<longrightarrow> correct_url relative_path rt d ((line, u), m # ms) =
                  (None, d\<lparr>contents := (contents d)[i := str_join (str new_url) segs]\<rparr>)
                \<and> correct_loop relative_path rt doc (before @ ((line, u), m # ms) # rest) =
                    correct_loop relative_path rt
                      (d\<lparr>contents := (contents d)[i := str_join (str new_url) segs]\<rparr>) rest
                \<and> fst (snd (write_corrected_url relative_path doc
                      (before @ [((line, u), m # ms)]) rt dry_run fs)) =
                    d\<lparr>contents := (contents d)[i := str_join (str new_url) segs]\<rparr>)"
proof -
  have f: "filename d = filename doc"
    using correct_loop_filename [of relative_path rt doc before] assms(1) by simp
  have r: "relative_to (filename d) rt = Inr rel" using assms(3) f by simp
  have ex: "\<exists>segs. segs \<noteq> [] \<and> contents d ! i = str_join (md u) segs
            \<and> (\<forall>seg \<in> set (butlast segs). \<not> sublist (md u) (seg @ butlast (md u)))
            \<and> \<not> sublist (md u) (last segs)"
    by (rule pieces_exist [OF assms(4)])
  have all: "correct_url relative_path rt d ((line, u), m # ms) =
                  (None, d\<lparr>contents := (contents d)[i := str_join (str new_url) segs]\<rparr>)
                \<and> correct_loop relative_path rt doc (before @ ((line, u), m # ms) # rest) =
                    correct_loop relative_path rt
                      (d\<lparr>contents := (contents d)[i := str_join (str new_url) segs]\<rparr>) rest
                \<and> fst (snd (write_corrected_url relative_path doc
                      (before @ [((line, u), m # ms)]) rt dry_run fs)) =
                    d\<lparr>contents := (contents d)[i := str_join (str new_url) segs]\<rparr>"
    if p: "segs \<noteq> []" "contents d ! i = str_join (md u) segs"
      "\<forall>seg \<in> set (butlast segs). \<not> sublist (md u) (seg @ butlast (md u))"
      "\<not> sublist (md u) (last segs)" for segs
  proof -
    have step: "correct_url relative_path rt d ((line, u), m # ms) =
                  (None, d\<lparr>contents := (contents d)[i := str_join (str new_url) segs]\<rparr>)"
      unfolding correct_url_ok [OF assms(2) r] p(2) assms(5) f
      by (simp add: str_replace_join [OF assms(4) p(1,3,4)])
    have loop: "correct_loop relative_path rt doc (before @ ((line, u), m # ms) # rest) =
           correct_loop relative_path rt
             (d\<lparr>contents := (contents d)[i := str_join (str new_url) segs]\<rparr>) rest" for rest
      by (rule correct_loop_reach [OF assms(1) step])
    show ?thesis
      using step loop [of rest] loop [of "[]"] by (simp add: write_corrected_url_doc)
  qed
  from ex all show ?thesis by blast
qed

theorem correct_url_replaces_every_occurrence_witness:
  "correct_loop sibling_path (Path ''/docs'') doc_x [((1, link1), [doc_c])] =
     (None, doc_x\<lparr>contents := (contents doc_x)
        [1 := ''See [../c/report.md](../c/report.md#intro).\<newline>'']\<rparr>)
   \<and> py_index (contents (doc_x\<lparr>contents := (contents doc_x)
        [1 := ''See [../c/report.md](../c/report.md#intro).\<newline>'']\<rparr>)) 2 = Inr 2
   \<and> relative_to (filename doc_x) (Path ''/docs'') = Inr \<lparr>anchor = [], tail = [''a'', ''x.md'']\<rparr>
   \<and> md link2 \<noteq> []
   \<and> contents (doc_x\<lparr>contents := (contents doc_x)
        [1 := ''See [../c/report.md](../c/report.md#intro).\<newline>'']\<rparr>) ! 2
       = str_join (md link2) [''Open '', '': [the report]('', '')\<newline>'']
   \<and> \<not> sublist (md link2) (''Open '' @ butlast (md link2))
   \<and> \<not> sublist (md link2) ('': [the report]('' @ butlast (md link2))
   \<and> \<not> sublist (md link2) '')\<newline>''
   \<and> str (joinpath (sibling_path (parent (filename doc_x)) (parent (filename doc_c)))
          (name (filename doc_c))) = ''../c/report.md''
   \<and> contents (fst (snd (write_corrected_url sibling_path doc_x
          ([((1, link1), [doc_c])] @ [((2, link2), [doc_c])]) (Path ''/docs'') True disk))) =
       [''# X\<newline>'',
        ''See [../c/report.md](../c/report.md#intro).\<newline>'',
        ''Open ../c/report.md: [the report](../c/report.md)\<newline>'',
        ''[see](../b/report.md#s) for more\<newline>'',
        ''[home](../d/index.md)\<newline>'']"
proof -
  let ?d = "doc_x\<lparr>contents := (contents doc_x)
        [1 := ''See [../c/report.md](../c/report.md#intro).\<newline>'']\<rparr>"
  let ?segs = "[''Open '', '': [the report]('', '')\<newline>'']"
  have h4: "md link2 \<noteq> []" by (simp add: md_links)
  have h5: "contents ?d ! 2 = str_join (md link2) ?segs"
    unfolding lines_after_entry1 md_links by simp
  have s1: "\<not> sublist (md link2) (''Open '' @ butlast (md link2))"
    unfolding md_links by (simp add: sublist_code)
  have s2: "\<not> sublist (md link2) ('': [the report]('' @ butlast (md link2))"
    unfolding md_links by (simp add: sublist_code)
  have s3: "\<not> sublist (md link2) '')\<newline>''"
    unfolding md_links by (simp add: sublist_code)
  have p: "?segs \<noteq> [] \<and> contents ?d ! 2 = str_join (md link2) ?segs
            \<and> (\<forall>seg \<in> set (butlast ?segs). \<not> sublist (md link2) (seg @ butlast (md link2)))
            \<and> \<not> sublist (md link2) (last ?segs)"
    using h5 s1 s2 s3 by simp
  have "fst (snd (write_corrected_url sibling_path doc_x
          ([((1, link1), [doc_c])] @ [((2, link2), [doc_c])]) (Path ''/docs'') True disk)) =
       ?d\<lparr>contents := (contents ?d)[2 := str_join ''../c/report.md'' ?segs]\<rparr>"
    using correct_url_replaces_every_occurrence [where m = doc_c and ms = "[]" and rest = "[]"
        and dry_run = True and fs = disk, OF after_entry1 lines_after_entry1(1)
        under_docs(1) h4 refl] p
    unfolding new_url_x by blast
  then have "contents (fst (snd (write_corrected_url sibling_path doc_x
          ([((1, link1), [doc_c])] @ [((2, link2), [doc_c])]) (Path ''/docs'') True disk))) =
       [''# X\<newline>'',
        ''See [../c/report.md](../c/report.md#intro).\<newline>'',
        ''Open ../c/report.md: [the report](../c/report.md)\<newline>'',
        ''[see](../b/report.md#s) for more\<newline>'',
        ''[home](../d/index.md)\<newline>'']"
    by (simp add: doc_x_def)
  with after_entry1 lines_after_entry1(1) under_docs(1) h4 h5 s1 s2 s3 new_url_x
  show ?thesis by blast
qed

text \<open>
  C4 as stated fails: in \<open>Open report.md: [the report](report.md)\<close> both occurrences are
  replaced, where replacing the first occurrence only would leave the link as it was.
\<close>

theorem first_occurrence_counterexample:
  "contents doc_x ! 2 = ''Open report.md: [the report](report.md)\<newline>''
   \<and> contents (fst (snd (write_corrected_url sibling_path doc_x [((2, link2), [doc_c])]
       (Path ''/docs'') True disk))) ! 2
     = ''Open ../c/report.md: [the report](../c/report.md)\<newline>''
   \<and> replace_first_occurrence (md link2) ''../c/report.md'' (contents doc_x ! 2)
     = ''Open ../c/report.md: [the report](report.md)\<newline>''"
  unfolding run2 md_links by (simp add: doc_x_def)

subsection \<open>write_corrected_url\<close>

text \<open>
  C5. With \<open>dry_run\<close> the file system is returned as it was, whatever happens in the
  loop; it changes only in a call without \<open>dry_run\<close>. A call without \<open>dry_run\<close> that ends
  normally leaves the file of the document holding the rewritten lines, one after the
  other. Whatever the call does, nothing but the file of the document changes, and it
  holds the rewritten text or, when writing failed, its first characters.
\<close>

theorem write_corrected_url_dry_run:
  assumes "write_corrected_url relative_path doc problems rt dry_run fs = (r, doc', fs')"
  shows "(dry_run \<longrightarrow> fs' = fs)
       \<and> (fs' \<noteq> fs \<longrightarrow> \<not> dry_run)
       \<and> (\<not> dry_run \<and> r = Inr PyNone \<longrightarrow>
            fs' = fs\<lparr>files := (files fs)(canonical fs (filename doc) \<mapsto> concat (contents doc'))\<rparr>)
       \<and> (\<exists>k. fs' = fs
              \<or> fs' = fs\<lparr>files := (files fs)(canonical fs (filename doc) \<mapsto>
                          take k (concat (contents doc')))\<rparr>)"
proof (cases "correct_loop relative_path rt doc problems")
  case (Pair e d)
  have f: "filename d = filename doc"
    using correct_loop_filename [of relative_path rt doc problems] Pair by simp
  show ?thesis
  proof (cases e)
    case (Some x)
    with assms Pair show ?thesis by (auto simp: write_corrected_url_def)
  next
    case None
    show ?thesis
    proof (cases dry_run)
      case True
      with assms Pair None show ?thesis by (auto simp: write_corrected_url_def)
    next
      case False
      note wet = False
      show ?thesis
      proof (cases "denied fs (canonical fs (filename doc))")
        case True
        with assms Pair None wet f show ?thesis
          by (auto simp: write_corrected_url_def write_lines_def)
      next
        case False
        note open_ok = False
        show ?thesis
        proof (cases "room fs (canonical fs (filename doc))")
          case None
          have w: "write_lines fs (filename d) (contents d) =
              (None, fs\<lparr>files := (files fs)(canonical fs (filename doc) \<mapsto> concat (contents d))\<rparr>)"
            using open_ok None f by (simp add: write_lines_def)
          have "r = Inr PyNone" "doc' = d"
            "fs' = fs\<lparr>files := (files fs)(canonical fs (filename doc) \<mapsto> concat (contents d))\<rparr>"
            using assms Pair \<open>e = None\<close> wet w by (auto simp: write_corrected_url_def)
          moreover have "take (length (concat (contents d))) (concat (contents d))
              = concat (contents d)" by simp
          ultimately show ?thesis using wet by metis
        next
          case (Some k)
          show ?thesis
          proof (cases "length (concat (contents d)) \<le> k")
            case True
            have w: "write_lines fs (filename d) (contents d) =
              (None, fs\<lparr>files := (files fs)(canonical fs (filename doc) \<mapsto> concat (contents d))\<rparr>)"
              using open_ok Some True f by (simp add: write_lines_def)
            have "r = Inr PyNone" "doc' = d"
              "fs' = fs\<lparr>files := (files fs)(canonical fs (filename doc) \<mapsto> concat (contents d))\<rparr>"
              using assms Pair \<open>e = None\<close> wet w by (auto simp: write_corrected_url_def)
            moreover have "take (length (concat (contents d))) (concat (contents d))
              = concat (contents d)" by simp
            ultimately show ?thesis using wet by metis
          next
            case False
            have w: "write_lines fs (filename d) (contents d) =
              (Some OSError,
               fs\<lparr>files := (files fs)(canonical fs (filename doc) \<mapsto> take k (concat (contents d)))\<rparr>)"
              using open_ok Some False f by (simp add: write_lines_def)
            have "r = Inl OSError" "doc' = d"
              "fs' = fs\<lparr>files := (files fs)(canonical fs (filename doc) \<mapsto>
                        take k (concat (contents d)))\<rparr>"
              using assms Pair \<open>e = None\<close> wet w by (auto simp: write_corrected_url_def)
            then show ?thesis using wet by auto
          qed
        qed
      qed
    qed
  qed
qed

theorem write_corrected_url_dry_run_witness:
  "snd (snd (write_corrected_url sibling_path doc_x [((3, link3), [doc_c])] (Path ''/docs'')
      True disk)) = disk
   \<and> fst (write_corrected_url sibling_path doc_x [((3, link3), [doc_c])] (Path ''/docs'')
      False disk) = Inr PyNone
   \<and> snd (snd (write_corrected_url sibling_path doc_x [((3, link3), [doc_c])] (Path ''/docs'')
      False disk))
     = disk\<lparr>files := (files disk)(canonical disk (filename doc_x) \<mapsto>
         concat ((contents doc_x)[3 := ''[see](../c/report.md#s) for more\<newline>'']))\<rparr>
   \<and> snd (snd (write_corrected_url sibling_path doc_x [((3, link3), [doc_c])] (Path ''/docs'')
      True (disk\<lparr>room := (\<lambda>p. Some 0)\<rparr>))) = disk\<lparr>room := (\<lambda>p. Some 0)\<rparr>
   \<and> write_corrected_url sibling_path doc_x [((3, link3), [doc_c])] (Path ''/docs'') False
      (disk\<lparr>room := (\<lambda>p. Some 0)\<rparr>) =
     (Inl OSError,
      doc_x\<lparr>contents := (contents doc_x)[3 := ''[see](../c/report.md#s) for more\<newline>'']\<rparr>,
      disk\<lparr>room := (\<lambda>p. Some 0), files := (files disk)(filename doc_x \<mapsto> [])\<rparr>)"
proof -
  let ?p = "[((3, link3), [doc_c])]"
  let ?full = "disk\<lparr>room := (\<lambda>p. Some 0)\<rparr>"
  let ?dry = "write_corrected_url sibling_path doc_x ?p (Path ''/docs'') True disk"
  let ?wet = "write_corrected_url sibling_path doc_x ?p (Path ''/docs'') False disk"
  let ?dryf = "write_corrected_url sibling_path doc_x ?p (Path ''/docs'') True ?full"
  have d: "?dry = (fst ?dry, fst (snd ?dry), snd (snd ?dry))" by simp
  have w: "?wet = (fst ?wet, fst (snd ?wet), snd (snd ?wet))" by simp
  have df: "?dryf = (fst ?dryf, fst (snd ?dryf), snd (snd ?dryf))" by simp
  have r: "fst ?wet = Inr PyNone" by (simp add: run3)
  have c: "contents (fst (snd ?wet))
             = (contents doc_x)[3 := ''[see](../c/report.md#s) for more\<newline>'']"
    by (simp add: run3)
  from write_corrected_url_dry_run [OF d] have 1: "snd (snd ?dry) = disk" by simp
  from write_corrected_url_dry_run [OF df] have 2: "snd (snd ?dryf) = ?full" by simp
  from write_corrected_url_dry_run [OF w] r
  have "snd (snd ?wet) = disk\<lparr>files := (files disk)(canonical disk (filename doc_x) \<mapsto>
         concat (contents (fst (snd ?wet))))\<rparr>"
    by simp
  with c have 3: "snd (snd ?wet) = disk\<lparr>files := (files disk)(canonical disk (filename doc_x) \<mapsto>
         concat ((contents doc_x)[3 := ''[see](../c/report.md#s) for more\<newline>'']))\<rparr>"
    by simp
  from 1 r 3 2 run3_full show ?thesis by blast
qed

text \<open>
  C10. The lines of the document are rewritten before \<open>dry_run\<close> is looked at: the
  document a dry run leaves is the one the loop produced, the same as without \<open>dry_run\<close>,
  while the file system is unchanged. For an entry that the loop reaches, whose old
  target occurs once in its line and differs from the new link, the line after the dry
  run holds the new link and is not the line it was.
\<close>

theorem write_corrected_url_dry_run_rewrites:
  "fst (snd (write_corrected_url relative_path doc problems rt True fs))
     = snd (correct_loop relative_path rt doc problems)
   \<and> fst (snd (write_corrected_url relative_path doc problems rt True fs))
     = fst (snd (write_corrected_url relative_path doc problems rt False fs))
   \<and> snd (snd (write_corrected_url relative_path doc problems rt True fs)) = fs
   \<and> (\<forall>before d line u m ms i rel pre post.
         correct_loop relative_path rt doc before = (None, d)
         \<and> py_index (contents d) line = Inr i
         \<and> relative_to (filename doc) rt = Inr rel
         \<and> md u \<noteq> []
         \<and> contents d ! i = pre @ md u @ post
         \<and> \<not> sublist (md u) (pre @ butlast (md u))
         \<and> \<not> sublist (md u) post
         \<and> str (joinpath (relative_path (parent (filename doc)) (parent (filename m)))
                  (name (filename m))) \<noteq> md u
         \<longrightarrow>
           contents (fst (snd (write_corrected_url relative_path doc
              (before @ [((line, u), m # ms)]) rt True fs))) ! i
             = pre @ str (joinpath (relative_path (parent (filename doc)) (parent (filename m)))
                            (name (filename m))) @ post
           \<and> contents (fst (snd (write_corrected_url relative_path doc
              (before @ [((line, u), m # ms)]) rt True fs))) ! i \<noteq> contents d ! i
           \<and> snd (snd (write_corrected_url relative_path doc
              (before @ [((line, u), m # ms)]) rt True fs)) = fs)"
proof -
  have a: "fst (snd (write_corrected_url relative_path doc problems rt True fs))
     = snd (correct_loop relative_path rt doc problems)"
    by (rule write_corrected_url_doc)
  have b: "fst (snd (write_corrected_url relative_path doc problems rt True fs))
     = fst (snd (write_corrected_url relative_path doc problems rt False fs))"
    by (simp add: write_corrected_url_doc)
  have c: "snd (snd (write_corrected_url relative_path doc ps rt True fs)) = fs" for ps
    by (auto simp: write_corrected_url_def split: prod.splits option.splits)
  have e: "contents (fst (snd (write_corrected_url relative_path doc
              (before @ [((line, u), m # ms)]) rt True fs))) ! i
             = pre @ str (joinpath (relative_path (parent (filename doc)) (parent (filename m)))
                            (name (filename m))) @ post
           \<and> contents (fst (snd (write_corrected_url relative_path doc
              (before @ [((line, u), m # ms)]) rt True fs))) ! i \<noteq> contents d ! i"
    if h: "correct_loop relative_path rt doc before = (None, d)"
      "py_index (contents d) line = Inr i"
      "relative_to (filename doc) rt = Inr rel"
      "md u \<noteq> []"
      "contents d ! i = pre @ md u @ post"
      "\<not> sublist (md u) (pre @ butlast (md u))"
      "\<not> sublist (md u) post"
      "str (joinpath (relative_path (parent (filename doc)) (parent (filename m)))
                  (name (filename m))) \<noteq> md u"
    for before d line u m ms i rel pre post
  proof -
    let ?new = "str (joinpath (relative_path (parent (filename doc)) (parent (filename m)))
                  (name (filename m)))"
    have f: "filename d = filename doc"
      using correct_loop_filename [of relative_path rt doc before] h(1) by simp
    have r: "relative_to (filename d) rt = Inr rel" using h(3) f by simp
    have step: "correct_url relative_path rt d ((line, u), m # ms) =
        (None, d\<lparr>contents := (contents d)[i := pre @ ?new @ post]\<rparr>)"
      unfolding correct_url_ok [OF h(2) r] h(5) f
      by (simp add: str_replace_once [OF h(4,6,7)])
    have "fst (snd (write_corrected_url relative_path doc
              (before @ [((line, u), m # ms)]) rt True fs))
          = d\<lparr>contents := (contents d)[i := pre @ ?new @ post]\<rparr>"
      using correct_loop_reach [OF h(1) step, of "[]"] by (simp add: write_corrected_url_doc)
    moreover have "i < length (contents d)"
      using h(2) by (auto simp: py_index_def split: if_splits)
    ultimately show ?thesis using h(5,8) by simp
  qed
  from a b c e show ?thesis by blast
qed

theorem write_corrected_url_dry_run_rewrites_witness:
  "correct_loop sibling_path (Path ''/docs'') doc_x [((1, link1), [doc_c])] =
     (None, doc_x\<lparr>contents := (contents doc_x)
        [1 := ''See [../c/report.md](../c/report.md#intro).\<newline>'']\<rparr>)
   \<and> py_index (contents (doc_x\<lparr>contents := (contents doc_x)
        [1 := ''See [../c/report.md](../c/report.md#intro).\<newline>'']\<rparr>)) 3 = Inr 3
   \<and> relative_to (filename doc_x) (Path ''/docs'') = Inr \<lparr>anchor = [], tail = [''a'', ''x.md'']\<rparr>
   \<and> md link3 = ''../b/report.md''
   \<and> str (joinpath (sibling_path (parent (filename doc_x)) (parent (filename doc_c)))
          (name (filename doc_c))) = ''../c/report.md''
   \<and> contents doc_x ! 3 = ''[see](../b/report.md#s) for more\<newline>''
   \<and> contents (fst (snd (write_corrected_url sibling_path doc_x
          ([((1, link1), [doc_c])] @ [((3, link3), [doc_c])]) (Path ''/docs'') True disk))) ! 3
       = ''[see](../c/report.md#s) for more\<newline>''
   \<and> snd (snd (write_corrected_url sibling_path doc_x
          ([((1, link1), [doc_c])] @ [((3, link3), [doc_c])]) (Path ''/docs'') True disk)) = disk"
proof -
  let ?d = "doc_x\<lparr>contents := (contents doc_x)
        [1 := ''See [../c/report.md](../c/report.md#intro).\<newline>'']\<rparr>"
  let ?w = "write_corrected_url sibling_path doc_x
          ([((1, link1), [doc_c])] @ [((3, link3), [doc_c])]) (Path ''/docs'') True disk"
  have h4: "md link3 \<noteq> []" by (simp add: md_links)
  have h5: "contents ?d ! 3 = ''[see]('' @ md link3 @ ''#s) for more\<newline>''"
    unfolding lines_after_entry1 md_links by simp
  have h6: "\<not> sublist (md link3) (''[see]('' @ butlast (md link3))"
    unfolding md_links by (simp add: sublist_code)
  have h7: "\<not> sublist (md link3) ''#s) for more\<newline>''"
    unfolding md_links by (simp add: sublist_code)
  have h8: "str (joinpath (sibling_path (parent (filename doc_x)) (parent (filename doc_c)))
          (name (filename doc_c))) \<noteq> md link3"
    unfolding new_url_x md_links by simp
  have "contents (fst (snd ?w)) ! 3
          = ''[see]('' @ str (joinpath (sibling_path (parent (filename doc_x))
               (parent (filename doc_c))) (name (filename doc_c))) @ ''#s) for more\<newline>''
        \<and> snd (snd ?w) = disk"
    using write_corrected_url_dry_run_rewrites [of sibling_path doc_x "[]" "Path ''/docs''" disk]
      after_entry1 lines_after_entry1(2) under_docs(1) h4 h5 h6 h7 h8
    by blast
  then have "contents (fst (snd ?w)) ! 3 = ''[see](../c/report.md#s) for more\<newline>''"
    "snd (snd ?w) = disk"
    unfolding new_url_x by simp_all
  with after_entry1 lines_after_entry1(2) under_docs(1) md_links(3) new_url_x lines_x(6)
  show ?thesis by blast
qed

text \<open>
  C9, as amended. \<open>write_corrected_url\<close> returns \<open>None\<close> when it ends normally, and
  never a number: the count of changed lines is not computed.
\<close>

theorem write_corrected_url_no_count:
  "fst (write_corrected_url relative_path doc problems rt dry_run fs) \<noteq> Inr (PyInt n)
   \<and> (fst (write_corrected_url relative_path doc problems rt dry_run fs) = Inr PyNone
        \<or> (\<exists>e. fst (write_corrected_url relative_path doc problems rt dry_run fs) = Inl e))"
  by (auto simp: write_corrected_url_def write_lines_def split: prod.splits option.splits)

theorem write_corrected_url_no_count_witness:
  "fst (write_corrected_url sibling_path doc_x [((3, link3), [doc_c])] (Path ''/docs'') False disk)
     \<noteq> Inr (PyInt 1)"
  using write_corrected_url_no_count [of sibling_path doc_x "[((3, link3), [doc_c])]"
      "Path ''/docs''" False disk 1]
  by blast

text \<open>
  C9 as stated fails: a call that changes one line returns \<open>None\<close>, not 1.
\<close>

theorem returned_count_counterexample:
  "fst (write_corrected_url sibling_path doc_x [((3, link3), [doc_c])] (Path ''/docs'') False disk)
     = Inr PyNone
   \<and> contents doc_x =
       [''# X\<newline>'',
        ''See [report.md](report.md#intro).\<newline>'',
        ''Open report.md: [the report](report.md)\<newline>'',
        ''[see](../b/report.md#s) for more\<newline>'',
        ''[home](../d/index.md)\<newline>'']
   \<and> contents (fst (snd (write_corrected_url sibling_path doc_x [((3, link3), [doc_c])]
        (Path ''/docs'') False disk))) =
       [''# X\<newline>'',
        ''See [report.md](report.md#intro).\<newline>'',
        ''Open report.md: [the report](report.md)\<newline>'',
        ''[see](../c/report.md#s) for more\<newline>'',
        ''[home](../d/index.md)\<newline>'']
   \<and> fst (write_corrected_url sibling_path doc_x [((3, link3), [doc_c])] (Path ''/docs'') False disk)
     \<noteq> Inr (PyInt 1)"
  unfolding run3 by (simp add: doc_x_def)

subsection \<open>links\<close>
















end
